theory Spec2Isabelle
  imports
    Complex_Main
    "HOL-Library.Multiset"
    "HOL-Library.Char_ord"
    "HOL-Library.List_Lexorder"
    "HOL-Library.Product_Lexorder"
begin

section \<open>Data model (types.ts)\<close>

text \<open>
  Timestamps (\<open>Date.now()\<close>, milliseconds) are integers; \<open>itemCount\<close> and \<open>order\<close> are only
  ever assigned a count or an array index, so they are naturals; durations and playback
  positions (seconds) are reals. A field declared with \<open>?\<close> is an option. Record fields are
  global constants in HOL, so the \<open>id\<close>, \<open>name\<close>, \<open>type\<close> and \<open>createdAt\<close> fields that both
  interfaces share carry a prefix.
\<close>

type_synonym Blob = "nat list"

record Session =
  s_id :: string
  s_name :: string
  s_createdAt :: int
  lastModified :: int
  thumbnailUrl :: "string option"
  itemCount :: nat

datatype MediaType = Photo | Video

record CropRect =
  crop_x :: real
  crop_y :: real
  crop_width :: real
  crop_height :: real

record MediaItem =
  m_id :: string
  sessionId :: string
  m_type :: MediaType
  blob :: Blob
  createdAt :: int
  duration :: "real option"
  trimNeeded :: "bool option"
  trimEndTime :: "real option"
  order :: nat
  crop :: "CropRect option"

section \<open>The IndexedDB object stores (services/db.ts)\<close>

text \<open>
  An object store with \<open>keyPath: 'id'\<close> holds at most one record per key and iterates in key
  order. It is modelled as the list of its records in key order; \<open>key\<close> is the key path.
  \<open>add\<close> is the only request of this file that can fail (the key is already present); a
  failed request aborts the transaction, so none of its writes is kept.
\<close>

datatype error = ConstraintError

definition os_add :: "('a \<Rightarrow> string) \<Rightarrow> 'a \<Rightarrow> 'a list \<Rightarrow> error + 'a list" where
  "os_add key v xs =
     (if list_ex (\<lambda>y. key y = key v) xs then Inl ConstraintError
      else Inr (insort_key key v xs))"

definition os_put :: "('a \<Rightarrow> string) \<Rightarrow> 'a \<Rightarrow> 'a list \<Rightarrow> 'a list" where
  "os_put key v xs = insort_key key v (filter (\<lambda>y. key y \<noteq> key v) xs)"

definition os_get :: "('a \<Rightarrow> string) \<Rightarrow> string \<Rightarrow> 'a list \<Rightarrow> 'a option" where
  "os_get key k xs = find (\<lambda>y. key y = k) xs"

definition os_delete :: "('a \<Rightarrow> string) \<Rightarrow> string \<Rightarrow> 'a list \<Rightarrow> 'a list" where
  "os_delete key k xs = filter (\<lambda>y. key y \<noteq> k) xs"

text \<open>The non-unique index \<open>sessionId\<close> of the media store: \<open>getAll\<close>, \<open>getAllKeys\<close>, \<open>count\<close>.\<close>

definition index_getAll :: "string \<Rightarrow> MediaItem list \<Rightarrow> MediaItem list" where
  "index_getAll k ms = filter (\<lambda>m. sessionId m = k) ms"

definition index_getAllKeys :: "string \<Rightarrow> MediaItem list \<Rightarrow> string list" where
  "index_getAllKeys k ms = map m_id (index_getAll k ms)"

definition index_count :: "string \<Rightarrow> MediaItem list \<Rightarrow> nat" where
  "index_count k ms = length (index_getAll k ms)"

text \<open>The database: the two stores \<open>sessions\<close> and \<open>media\<close>.\<close>

record db =
  sessions :: "Session list"
  media :: "MediaItem list"

text \<open>
  Every exported write runs in one transaction and returns a promise: \<open>Inr\<close> is
  \<open>tx.oncomplete\<close> (resolve) with the committed database, \<open>Inl\<close> is \<open>tx.onerror\<close> (reject),
  after which the database is what it was. \<open>crypto.randomUUID()\<close> and \<open>Date.now()\<close> are
  parameters (\<open>newId\<close>, \<open>now\<close>).
\<close>

definition createSession :: "string \<Rightarrow> string \<Rightarrow> int \<Rightarrow> db \<Rightarrow> error + (Session \<times> db)" where
  "createSession nm newId now s =
     (let session = \<lparr>s_id = newId, s_name = nm, s_createdAt = now, lastModified = now,
                      thumbnailUrl = None, itemCount = 0\<rparr>
      in case os_add s_id session (sessions s) of
           Inl e \<Rightarrow> Inl e
         | Inr ss \<Rightarrow> Inr (session, s\<lparr>sessions := ss\<rparr>))"

text \<open>\<open>sessions.sort((a, b) => b.lastModified - a.lastModified)\<close>: a stable sort, newest first.\<close>

definition getSessions :: "db \<Rightarrow> Session list" where
  "getSessions s = sort_key (\<lambda>x. - lastModified x) (sessions s)"

definition deleteSession :: "string \<Rightarrow> db \<Rightarrow> error + db" where
  "deleteSession ident s =
     Inr (s\<lparr>sessions := os_delete s_id ident (sessions s),
            media := fold (os_delete m_id) (index_getAllKeys ident (media s)) (media s)\<rparr>)"

text \<open>
  \<open>addMediaItem\<close>: the count request, then \<open>item.order = count\<close> and \<open>add(item)\<close>; the session
  is fetched and, only \<open>if (session)\<close>, written back with the count and the date bumped.
\<close>

definition addMediaItem :: "MediaItem \<Rightarrow> int \<Rightarrow> db \<Rightarrow> error + db" where
  "addMediaItem item now s =
     (let count = index_count (sessionId item) (media s);
          item' = item\<lparr>order := count\<rparr>
      in case os_add m_id item' (media s) of
           Inl e \<Rightarrow> Inl e
         | Inr ms \<Rightarrow>
             Inr (s\<lparr>media := ms,
                    sessions :=
                      (case os_get s_id (sessionId item) (sessions s) of
                         None \<Rightarrow> sessions s
                       | Some session \<Rightarrow>
                           os_put s_id
                             (session\<lparr>itemCount := itemCount session + 1, lastModified := now\<rparr>)
                             (sessions s))\<rparr>))"

text \<open>
  \<open>items.sort((a, b) => (a.order ?? 0) - (b.order ?? 0) || a.createdAt - b.createdAt)\<close>:
  a stable sort on the pair (order, createdAt), compared lexicographically; \<open>order\<close> is a
  number in \<open>MediaItem\<close>, so \<open>?? 0\<close> changes nothing.
\<close>

definition getMediaForSession :: "string \<Rightarrow> db \<Rightarrow> MediaItem list" where
  "getMediaForSession k s = sort_key (\<lambda>m. (order m, createdAt m)) (index_getAll k (media s))"

definition getMediaItem :: "string \<Rightarrow> db \<Rightarrow> MediaItem option" where
  "getMediaItem ident s = os_get m_id ident (media s)"

definition updateMediaItem :: "MediaItem \<Rightarrow> int \<Rightarrow> db \<Rightarrow> error + db" where
  "updateMediaItem item now s =
     Inr (s\<lparr>media := os_put m_id item (media s),
            sessions :=
              (case os_get s_id (sessionId item) (sessions s) of
                 None \<Rightarrow> sessions s
               | Some session \<Rightarrow> os_put s_id (session\<lparr>lastModified := now\<rparr>) (sessions s))\<rparr>)"

text \<open>\<open>updateMediaItems\<close>: a transaction on the media store alone, \<open>items.forEach(put)\<close>.\<close>

definition updateMediaItems :: "MediaItem list \<Rightarrow> db \<Rightarrow> error + db" where
  "updateMediaItems items s = Inr (s\<lparr>media := fold (os_put m_id) items (media s)\<rparr>)"

section \<open>Session detail view: drag reorder and merge playback\<close>

text \<open>The component state of \<open>SessionDetail\<close> that the handlers below read and write.\<close>

record SessionDetail =
  sd_sessionId :: string
  sd_media :: "MediaItem list"
  draggedIndex :: "nat option"
  isMerging :: bool
  mergeQueue :: "MediaItem list"
  currentMergeIndex :: nat

text \<open>\<open>media.map((item, index) => ({ ...item, order: index }))\<close>\<close>

definition reindex :: "MediaItem list \<Rightarrow> MediaItem list" where
  "reindex ms = map (\<lambda>(index, item). item\<lparr>order := index\<rparr>) (enumerate 0 ms)"

definition handleDragEnd :: "SessionDetail \<Rightarrow> db \<Rightarrow> SessionDetail \<times> (error + db)" where
  "handleDragEnd ui s =
     (ui\<lparr>draggedIndex := None\<rparr>, updateMediaItems (reindex (sd_media ui)) s)"

text \<open>
  The order invariant of one session \<open>k\<close>: the \<open>order\<close> values of the items that carry
  \<open>sessionId = k\<close> have no duplicates and are exactly \<open>0, \<dots>, n - 1\<close> for the \<open>n\<close> items.
\<close>

definition gap_free :: "string \<Rightarrow> db \<Rightarrow> bool" where
  "gap_free k s \<longleftrightarrow>
     distinct (map order (index_getAll k (media s))) \<and>
     set (map order (index_getAll k (media s))) = {0..<index_count k (media s)}"

text \<open>
  The writes that create, delete or reorder media items, as the application issues them.
  The drag reorder persists the list the view holds, which is the list it loaded with
  \<open>getMediaForSession\<close> for some session, rearranged by dragging.
\<close>

inductive store_step :: "db \<Rightarrow> db \<Rightarrow> bool" where
  step_create: "createSession nm newId now s = Inr (x, s') \<Longrightarrow> store_step s s'"
| step_add: "addMediaItem item now s = Inr s' \<Longrightarrow> store_step s s'"
| step_delete: "deleteSession ident s = Inr s' \<Longrightarrow> store_step s s'"
| step_reorder:
    "mset (sd_media ui) = mset (getMediaForSession k s) \<Longrightarrow>
     snd (handleDragEnd ui s) = Inr s' \<Longrightarrow> store_step s s'"

subsection \<open>Merge playback (the timeline sequencer)\<close>

text \<open>\<open>xs[i]\<close> of JavaScript: \<open>undefined\<close> out of range.\<close>

definition nth_opt :: "'a list \<Rightarrow> nat \<Rightarrow> 'a option" where
  "nth_opt xs i = (if i < length xs then Some (xs ! i) else None)"

definition handleMerge :: "SessionDetail \<Rightarrow> SessionDetail" where
  "handleMerge ui =
     (let videos = filter (\<lambda>m. m_type m = Video) (sd_media ui)
      in if length videos = 0 then ui
         else ui\<lparr>mergeQueue := videos, currentMergeIndex := 0, isMerging := True\<rparr>)"

text \<open>\<open>currentMergeIndex < mergeQueue.length - 1\<close> is a comparison of numbers: the right side is \<open>-1\<close> for an empty queue.\<close>

definition playNextInQueue :: "SessionDetail \<Rightarrow> SessionDetail" where
  "playNextInQueue ui =
     (if int (currentMergeIndex ui) < int (length (mergeQueue ui)) - 1
      then ui\<lparr>currentMergeIndex := currentMergeIndex ui + 1\<rparr>
      else ui\<lparr>isMerging := False\<rparr>)"

text \<open>
  \<open>handleMergeTimeUpdate\<close>: the argument is \<open>mergeVideoRef.current\<close>, given by its
  \<open>currentTime\<close> (\<open>None\<close> when the ref is null). The test \<open>currentItem.trimEndTime\<close> is a
  truthiness test: it fails for \<open>undefined\<close> and for \<open>0\<close>.
\<close>

definition handleMergeTimeUpdate :: "real option \<Rightarrow> SessionDetail \<Rightarrow> SessionDetail" where
  "handleMergeTimeUpdate video ui =
     (case video of
        None \<Rightarrow> ui
      | Some currentTime \<Rightarrow>
          (case nth_opt (mergeQueue ui) (currentMergeIndex ui) of
             None \<Rightarrow> ui
           | Some currentItem \<Rightarrow>
               (case trimEndTime currentItem of
                  None \<Rightarrow> ui
                | Some e \<Rightarrow>
                    if e \<noteq> 0 \<and> currentTime \<ge> e then playNextInQueue ui else ui)))"

text \<open>
  The merge \<open><video>\<close> element is rendered while \<open>isMerging && mergeQueue.length > 0\<close>, with
  \<open>key = mergeQueue[currentMergeIndex].id\<close>, \<open>autoPlay\<close>, \<open>onTimeUpdate = handleMergeTimeUpdate\<close>
  and \<open>onEnded = playNextInQueue\<close>. An event carries the element's \<open>currentTime\<close>.
\<close>

datatype player_event = TimeUpdate real | Ended real

fun seq_step :: "player_event \<Rightarrow> SessionDetail \<Rightarrow> SessionDetail" where
  "seq_step (TimeUpdate t) ui = handleMergeTimeUpdate (Some t) ui"
| "seq_step (Ended t) ui = playNextInQueue ui"

definition merge_key :: "SessionDetail \<Rightarrow> string option" where
  "merge_key ui =
     (if isMerging ui \<and> length (mergeQueue ui) > 0
      then map_option m_id (nth_opt (mergeQueue ui) (currentMergeIndex ui))
      else None)"

text \<open>
  The states of the spec, read off the component state: \<open>Playing i\<close> while the modal is
  open on clip \<open>i\<close>, \<open>Done\<close> once \<open>isMerging\<close> is false.
\<close>

datatype seq_state = Playing nat | Done

definition seq_state_of :: "SessionDetail \<Rightarrow> seq_state" where
  "seq_state_of ui = (if isMerging ui then Playing (currentMergeIndex ui) else Done)"

text \<open>
  A driver for the playback surface. One element plays one clip and delivers its events in
  order; when the key changes React replaces the element (the new one starts at position 0),
  so the rest of the old element's events is never delivered. \<open>play_clip\<close> returns the event
  that ended the clip; \<open>run_merge\<close> takes one event list per clip played and returns the
  ending events in order with the final state. \<open>media_events d ticks\<close> are the events of a
  medium of natural length \<open>d\<close> observed at the positions \<open>ticks\<close>.
\<close>

fun play_clip :: "player_event list \<Rightarrow> SessionDetail \<Rightarrow> player_event option \<times> SessionDetail" where
  "play_clip [] ui = (None, ui)"
| "play_clip (e # es) ui =
     (let ui' = seq_step e ui
      in if merge_key ui' \<noteq> merge_key ui then (Some e, ui') else play_clip es ui')"

fun run_merge :: "player_event list list \<Rightarrow> SessionDetail \<Rightarrow> player_event list \<times> SessionDetail" where
  "run_merge [] ui = ([], ui)"
| "run_merge (es # ess) ui =
     (if merge_key ui = None then ([], ui)
      else case play_clip es ui of
             (None, ui') \<Rightarrow> ([], ui')
           | (Some e, ui') \<Rightarrow> (let (tr, ui'') = run_merge ess ui' in (e # tr, ui'')))"

definition media_events :: "real \<Rightarrow> real list \<Rightarrow> player_event list" where
  "media_events d ticks = map TimeUpdate (filter (\<lambda>t. t < d) ticks) @ [TimeUpdate d, Ended d]"

section \<open>Preferences (services/preferences.ts)\<close>

type_synonym localStorage = "string \<Rightarrow> string option"

definition KEY_SKIP_FLAG_PROMPT :: string where
  "KEY_SKIP_FLAG_PROMPT = ''sessioncam_skip_flag_prompt''"

definition getShouldSkipFlagPrompt :: "localStorage \<Rightarrow> bool" where
  "getShouldSkipFlagPrompt ls \<longleftrightarrow> ls KEY_SKIP_FLAG_PROMPT = Some ''true''"

definition setShouldSkipFlagPrompt :: "bool \<Rightarrow> localStorage \<Rightarrow> localStorage" where
  "setShouldSkipFlagPrompt shouldSkip ls =
     ls(KEY_SKIP_FLAG_PROMPT \<mapsto> (if shouldSkip then ''true'' else ''false''))"

section \<open>Camera view: finishing a recording\<close>

text \<open>
  The state of \<open>CameraView\<close> that finishing a recording touches. \<open>recorder\<close> says whether
  \<open>mediaRecorderRef.current\<close> is set; \<open>recordingStartTime\<close> is \<open>recordingStartTimeRef\<close>;
  \<open>chunks\<close> is \<open>chunksRef\<close>, and the blob built from it is the concatenation.
\<close>

record CameraView =
  cv_sessionId :: string
  recorder :: bool
  isRecording :: bool
  recordingTime :: nat
  recordingStartTime :: int
  chunks :: "Blob list"
  showFlagModal :: bool
  pendingFlaggedBlob :: "Blob option"
  dontRemindFlag :: bool

text \<open>
  The readings a call takes from outside: \<open>newId\<close> is \<open>crypto.randomUUID()\<close>, \<open>t_item\<close> the
  \<open>Date.now()\<close> of \<open>saveMedia\<close>, \<open>t_tx\<close> the \<open>Date.now()\<close> inside the transaction.
\<close>

record readings =
  newId :: string
  t_item :: int
  t_tx :: int

definition saveMedia ::
  "Blob \<Rightarrow> MediaType \<Rightarrow> bool \<Rightarrow> readings \<Rightarrow> CameraView \<Rightarrow> db \<Rightarrow> string option \<times> db" where
  "saveMedia b ty flagged r cv s =
     (let item = \<lparr>m_id = newId r, sessionId = cv_sessionId cv, m_type = ty, blob = b,
                   createdAt = t_item r,
                   duration = Some (if ty = Video then real (recordingTime cv) else 0),
                   trimNeeded = Some flagged, trimEndTime = None, order = 0, crop = None\<rparr>
      in case addMediaItem item (t_tx r) s of
           Inr s' \<Rightarrow> (Some (newId r), s')
         | Inl e \<Rightarrow> (None, s))"

definition handleFlaggedWorkflow ::
  "Blob \<Rightarrow> readings \<Rightarrow> CameraView \<times> localStorage \<times> db \<Rightarrow> CameraView \<times> localStorage \<times> db" where
  "handleFlaggedWorkflow b r w =
     (case w of (cv, ls, s) \<Rightarrow>
        let shouldSkip = getShouldSkipFlagPrompt ls
        in if shouldSkip then (cv, ls, snd (saveMedia b Video True r cv s))
           else (cv\<lparr>pendingFlaggedBlob := Some b, showFlagModal := True\<rparr>, ls, s))"

text \<open>
  \<open>finishRecording\<close>, with the \<open>onstop\<close> handler it installs run at the \<open>stop()\<close> that follows;
  \<open>now\<close> is the \<open>Date.now()\<close> of the length test. A recording shorter than 500 ms is stopped
  with no handler installed and nothing is saved.
\<close>

definition finishRecording ::
  "bool \<Rightarrow> int \<Rightarrow> readings \<Rightarrow> CameraView \<times> localStorage \<times> db \<Rightarrow> CameraView \<times> localStorage \<times> db" where
  "finishRecording isFlagged now r w =
     (case w of (cv, ls, s) \<Rightarrow>
        if recorder cv \<and> isRecording cv then
          (if now - recordingStartTime cv < 500 then (cv\<lparr>isRecording := False\<rparr>, ls, s)
           else
             let b = concat (chunks cv);
                 cv' = cv\<lparr>chunks := [], isRecording := False\<rparr>
             in if isFlagged then handleFlaggedWorkflow b r (cv', ls, s)
                else (cv', ls, snd (saveMedia b Video False r cv' s)))
        else (cv, ls, s))"

definition stopRecordingFlagged :: "int \<Rightarrow> readings \<Rightarrow> CameraView \<times> localStorage \<times> db \<Rightarrow> CameraView \<times> localStorage \<times> db" where
  "stopRecordingFlagged = finishRecording True"

section \<open>Trim view: saving a trim and crop (components/TrimView.tsx)\<close>

record TrimView =
  tv_item :: "MediaItem option"
  endTime :: real
  tv_crop :: CropRect
  showConfirm :: bool

definition performSave :: "TrimView \<Rightarrow> int \<Rightarrow> db \<Rightarrow> TrimView \<times> (error + db)" where
  "performSave tv now s =
     (case tv_item tv of
        None \<Rightarrow> (tv, Inr s)
      | Some item \<Rightarrow>
          let updated = item\<lparr>trimNeeded := Some False, trimEndTime := Some (endTime tv),
                              duration := Some (endTime tv), crop := Some (tv_crop tv)\<rparr>
          in (tv\<lparr>showConfirm := False\<rparr>, updateMediaItem updated now s))"

section \<open>Example data\<close>

text \<open>
  One session \<open>s1\<close> and video clips in it, named by id, position, recorded length and
  trim; the store of three clips of lengths 5, 3 and 4 seconds, and the store before the
  third was added.
\<close>

definition ex_session :: "nat \<Rightarrow> Session" where
  "ex_session n = \<lparr>s_id = ''s1'', s_name = ''S1'', s_createdAt = 1000, lastModified = 1000,
                    thumbnailUrl = None, itemCount = n\<rparr>"

definition ex_clip :: "string \<Rightarrow> nat \<Rightarrow> real \<Rightarrow> real option \<Rightarrow> MediaItem" where
  "ex_clip ident n d e = \<lparr>m_id = ident, sessionId = ''s1'', m_type = Video, blob = [],
                          createdAt = 1000, duration = Some d, trimNeeded = Some False,
                          trimEndTime = e, order = n, crop = None\<rparr>"

definition ex_db :: db where
  "ex_db = \<lparr>sessions = [ex_session 3],
            media = [ex_clip ''a'' 0 5 None, ex_clip ''b'' 1 3 None, ex_clip ''c'' 2 4 None]\<rparr>"

definition ex_db2 :: db where
  "ex_db2 = \<lparr>sessions = [ex_session 2],
             media = [ex_clip ''a'' 0 5 None, ex_clip ''b'' 1 3 None]\<rparr>"

text \<open>A session detail view holding the list \<open>ms\<close>, in the middle of a drag.\<close>

definition ex_ui :: "MediaItem list \<Rightarrow> SessionDetail" where
  "ex_ui ms = \<lparr>sd_sessionId = ''s1'', sd_media = ms, draggedIndex = Some 0, isMerging = False,
               mergeQueue = [], currentMergeIndex = 0\<rparr>"

text \<open>An item whose \<open>sessionId\<close> names a session that is not in the store.\<close>

definition ex_orphan :: MediaItem where
  "ex_orphan = \<lparr>m_id = ''m1'', sessionId = ''ghost'', m_type = Video, blob = [],
                createdAt = 1000, duration = Some 2, trimNeeded = Some False,
                trimEndTime = None, order = 0, crop = None\<rparr>"

text \<open>The three clips with the middle one trimmed to 1.5 s, and positions observed every half second.\<close>

definition ex_queue :: "MediaItem list" where
  "ex_queue = [ex_clip ''a'' 0 5 None, ex_clip ''b'' 1 3 (Some 1.5), ex_clip ''c'' 2 4 None]"

definition ex_ticks :: "real list" where
  "ex_ticks = [0.5, 1, 1.5, 2, 2.5, 3, 3.5, 4, 4.5, 5]"

text \<open>A camera view three seconds into a recording, and the readings of one save.\<close>

definition ex_cv :: CameraView where
  "ex_cv = \<lparr>cv_sessionId = ''s1'', recorder = True, isRecording = True, recordingTime = 3,
            recordingStartTime = 1000, chunks = [[1, 2], [3]], showFlagModal = False,
            pendingFlaggedBlob = None, dontRemindFlag = False\<rparr>"

definition ex_readings :: readings where
  "ex_readings = \<lparr>newId = ''d'', t_item = 4001, t_tx = 4002\<rparr>"

text \<open>A trim view on the flagged clip \<open>b\<close>, with the end set to 1.5 s and the lower half cropped away.\<close>

definition ex_tv :: TrimView where
  "ex_tv = \<lparr>tv_item = Some ((ex_clip ''b'' 1 3 None)\<lparr>trimNeeded := Some True\<rparr>), endTime = 1.5,
            tv_crop = \<lparr>crop_x = 0, crop_y = 0, crop_width = 1, crop_height = 0.5\<rparr>,
            showConfirm = True\<rparr>"

section \<open>Facts about the object stores\<close>

lemma set_os_put: "set (os_put key v xs) = insert v {y \<in> set xs. key y \<noteq> key v}"
  by (auto simp: os_put_def set_insort_key)

lemma mset_os_put: "mset (os_put key v xs) = add_mset v (filter_mset (\<lambda>y. key y \<noteq> key v) (mset xs))"
  by (simp add: os_put_def)

lemma find_insort_key_fresh:
  "P v \<Longrightarrow> \<forall>y\<in>set xs. \<not> P y \<Longrightarrow> find P (insort_key f v xs) = Some v"
  by (induction xs) auto

lemma os_get_os_put: "os_get key (key v) (os_put key v xs) = Some v"
  unfolding os_get_def os_put_def by (rule find_insort_key_fresh) auto

lemma find_insort_key_other:
  "\<not> P v \<Longrightarrow> find P (insort_key f v xs) = find P xs"
  by (induction xs) auto

lemma find_filter_other:
  "(\<And>y. P y \<Longrightarrow> Q y) \<Longrightarrow> find P (filter Q xs) = find P xs"
  by (induction xs) auto

lemma os_get_os_put_other: "k \<noteq> key v \<Longrightarrow> os_get key k (os_put key v xs) = os_get key k xs"
  unfolding os_get_def os_put_def
  by (simp add: find_insort_key_other find_filter_other)

lemma os_get_key: "os_get key k xs = Some v \<Longrightarrow> key v = k \<and> v \<in> set xs"
  unfolding os_get_def by (induction xs) (auto split: if_splits)

lemma os_get_None: "os_get key k xs = None \<longleftrightarrow> (\<forall>y\<in>set xs. key y \<noteq> k)"
  unfolding os_get_def by (induction xs) auto

lemma os_add_Inr:
  "os_add key v xs = Inr ys \<Longrightarrow> ys = insort_key key v xs \<and> (\<forall>y\<in>set xs. key y \<noteq> key v)"
  by (auto simp: os_add_def list_ex_iff split: if_splits)

lemma fold_os_delete: "fold (os_delete key) ks xs = filter (\<lambda>y. key y \<notin> set ks) xs"
  by (induction ks arbitrary: xs) (auto simp: os_delete_def intro: filter_cong)

lemma gap_free_list_iff:
  fixes xs :: "nat list"
  shows "distinct xs \<and> set xs = {0..<length xs} \<longleftrightarrow> mset xs = mset [0..<length xs]"
proof
  assume "distinct xs \<and> set xs = {0..<length xs}"
  then have "mset xs = mset_set {0..<length xs}"
    by (metis mset_set_set)
  then show "mset xs = mset [0..<length xs]" by (simp add: mset_upt)
next
  assume h: "mset xs = mset [0..<length xs]"
  then have "distinct xs" using mset_eq_imp_distinct_iff distinct_upt by blast
  moreover have "set xs = {0..<length xs}" using mset_eq_setD [OF h] by simp
  ultimately show "distinct xs \<and> set xs = {0..<length xs}" by simp
qed

lemma gap_free_mset:
  "gap_free k s \<longleftrightarrow>
     image_mset order (filter_mset (\<lambda>m. sessionId m = k) (mset (media s))) =
     mset [0..<size (filter_mset (\<lambda>m. sessionId m = k) (mset (media s)))]"
proof -
  let ?xs = "map order (index_getAll k (media s))"
  have a: "mset ?xs = image_mset order (filter_mset (\<lambda>m. sessionId m = k) (mset (media s)))"
    by (simp add: index_getAll_def)
  have b: "length ?xs = size (filter_mset (\<lambda>m. sessionId m = k) (mset (media s)))"
    by (simp add: index_getAll_def flip: size_mset)
  have "gap_free k s \<longleftrightarrow> distinct ?xs \<and> set ?xs = {0..<length ?xs}"
    by (simp add: gap_free_def index_count_def)
  also have "\<dots> \<longleftrightarrow> mset ?xs = mset [0..<length ?xs]" by (rule gap_free_list_iff)
  finally show ?thesis unfolding a b .
qed

subsection \<open>The reindexed list and its write\<close>

lemma map_m_id_reindex: "map m_id (reindex l) = map m_id l"
proof -
  have "map m_id (reindex l) = map (m_id \<circ> snd) (enumerate 0 l)"
    by (simp add: reindex_def case_prod_beta comp_def)
  then show ?thesis by (simp flip: map_map)
qed

lemma map_sessionId_reindex: "map sessionId (reindex l) = map sessionId l"
proof -
  have "map sessionId (reindex l) = map (sessionId \<circ> snd) (enumerate 0 l)"
    by (simp add: reindex_def case_prod_beta comp_def)
  then show ?thesis by (simp flip: map_map)
qed

lemma map_order_reindex: "map order (reindex l) = [0..<length l]"
proof -
  have "map order (reindex l) = map fst (enumerate 0 l)"
    by (simp add: reindex_def case_prod_beta comp_def)
  then show ?thesis by simp
qed

lemma fold_os_put_mset:
  "distinct (map key us) \<Longrightarrow>
   mset (fold (os_put key) us xs) =
   mset us + filter_mset (\<lambda>y. key y \<notin> set (map key us)) (mset xs)"
proof (induction us arbitrary: xs)
  case Nil
  then show ?case by simp
next
  case (Cons u us)
  have "key u \<notin> set (map key us)" using Cons.prems by simp
  moreover have "distinct (map key us)" using Cons.prems by simp
  ultimately have "mset (fold (os_put key) us (os_put key u xs)) =
      mset us + add_mset u (filter_mset (\<lambda>y. key y \<notin> set (map key us))
                              (filter_mset (\<lambda>y. key y \<noteq> key u) (mset xs)))"
    using Cons.IH [of "os_put key u xs"] by (simp add: mset_os_put)
  moreover have "filter_mset (\<lambda>y. key y \<notin> set (map key us))
                  (filter_mset (\<lambda>y. key y \<noteq> key u) (mset xs)) =
                 filter_mset (\<lambda>y. key y \<notin> set (map key (u # us))) (mset xs)"
    by (auto simp: filter_filter_mset intro!: filter_mset_cong)
  ultimately show ?case by simp
qed

lemma reorder_mset:
  assumes d: "distinct (map m_id ms)" and p: "mset l = mset (index_getAll k0 ms)"
  shows "mset (fold (os_put m_id) (reindex l) ms) =
         mset (reindex l) + filter_mset (\<lambda>m. sessionId m \<noteq> k0) (mset ms)"
proof -
  have sl: "set l = {x \<in> set ms. sessionId x = k0}"
    using mset_eq_setD [OF p] by (auto simp: index_getAll_def)
  have inj: "inj_on m_id (set ms)" using d by (simp add: distinct_map)
  have "mset (map m_id l) = mset (map m_id (index_getAll k0 ms))"
    using p by (metis mset_map)
  moreover have "distinct (map m_id (index_getAll k0 ms))"
    unfolding index_getAll_def using d by (rule distinct_map_filter)
  ultimately have "distinct (map m_id l)"
    using mset_eq_imp_distinct_iff by blast
  then have "distinct (map m_id (reindex l))" by (simp add: map_m_id_reindex)
  then have "mset (fold (os_put m_id) (reindex l) ms) =
      mset (reindex l) + filter_mset (\<lambda>y. m_id y \<notin> set (map m_id (reindex l))) (mset ms)"
    by (rule fold_os_put_mset)
  moreover have "filter_mset (\<lambda>y. m_id y \<notin> set (map m_id (reindex l))) (mset ms) =
                 filter_mset (\<lambda>m. sessionId m \<noteq> k0) (mset ms)"
  proof (rule filter_mset_cong [OF refl])
    fix y assume "y \<in># mset ms"
    then have y: "y \<in> set ms" by simp
    show "(m_id y \<notin> set (map m_id (reindex l))) = (sessionId y \<noteq> k0)"
    proof
      assume "m_id y \<notin> set (map m_id (reindex l))"
      then have "y \<notin> set l" by (auto simp: map_m_id_reindex)
      then show "sessionId y \<noteq> k0" using y sl by auto
    next
      assume n: "sessionId y \<noteq> k0"
      show "m_id y \<notin> set (map m_id (reindex l))"
      proof
        assume "m_id y \<in> set (map m_id (reindex l))"
        then obtain x where x: "x \<in> set l" "m_id x = m_id y"
          by (auto simp: map_m_id_reindex)
        then have "x = y" using inj y sl by (auto dest: inj_onD)
        then show False using x(1) sl n by auto
      qed
    qed
  qed
  ultimately show ?thesis by simp
qed

lemma sessionId_reindex: "x \<in> set (reindex l) \<Longrightarrow> sessionId x \<in> sessionId ` set l"
  by (metis image_set map_sessionId_reindex rev_image_eqI)

lemma reorder_index_getAll:
  assumes d: "distinct (map m_id ms)" and p: "mset l = mset (index_getAll k0 ms)"
  shows "mset (index_getAll k (fold (os_put m_id) (reindex l) ms)) =
         (if k = k0 then mset (reindex l) else mset (index_getAll k ms))"
proof -
  have sl: "\<forall>x\<in>set l. sessionId x = k0"
    using mset_eq_setD [OF p] by (auto simp: index_getAll_def)
  then have sr: "\<forall>x\<in>set (reindex l). sessionId x = k0"
    using sessionId_reindex by fastforce
  have "mset (index_getAll k (fold (os_put m_id) (reindex l) ms)) =
        filter_mset (\<lambda>m. sessionId m = k) (mset (reindex l)) +
        filter_mset (\<lambda>m. sessionId m = k) (filter_mset (\<lambda>m. sessionId m \<noteq> k0) (mset ms))"
    by (simp add: index_getAll_def reorder_mset [OF d p])
  also have "\<dots> = (if k = k0 then mset (reindex l) else mset (index_getAll k ms))"
  proof (cases "k = k0")
    case True
    have "filter_mset (\<lambda>m. sessionId m = k0) (mset (reindex l)) = mset (reindex l)"
      using sr by (auto simp: filter_mset_eq_conv)
    moreover have "filter_mset (\<lambda>m. sessionId m = k0) (filter_mset (\<lambda>m. sessionId m \<noteq> k0) (mset ms)) = {#}"
      by auto
    ultimately show ?thesis using True by simp
  next
    case False
    have "filter_mset (\<lambda>m. sessionId m = k) (mset (reindex l)) = {#}"
      using sr False by auto
    moreover have "filter_mset (\<lambda>m. sessionId m = k) (filter_mset (\<lambda>m. sessionId m \<noteq> k0) (mset ms)) =
                   filter_mset (\<lambda>m. sessionId m = k) (mset ms)"
      using False by (auto simp: filter_filter_mset intro!: filter_mset_cong)
    ultimately show ?thesis using False by (simp add: index_getAll_def)
  qed
  finally show ?thesis .
qed

lemma reorder_ids:
  assumes d: "distinct (map m_id ms)" and p: "mset l = mset (index_getAll k0 ms)"
  shows "distinct (map m_id (fold (os_put m_id) (reindex l) ms))"
proof -
  have "image_mset m_id (mset (fold (os_put m_id) (reindex l) ms)) =
        mset (map m_id (reindex l)) + image_mset m_id (filter_mset (\<lambda>m. sessionId m \<noteq> k0) (mset ms))"
    by (simp add: reorder_mset [OF d p])
  also have "mset (map m_id (reindex l)) = image_mset m_id (filter_mset (\<lambda>m. sessionId m = k0) (mset ms))"
    using arg_cong [OF p, of "image_mset m_id"] by (simp add: map_m_id_reindex index_getAll_def)
  also have "image_mset m_id (filter_mset (\<lambda>m. sessionId m = k0) (mset ms)) +
             image_mset m_id (filter_mset (\<lambda>m. sessionId m \<noteq> k0) (mset ms)) =
             image_mset m_id (mset ms)"
    by (simp flip: image_mset_union)
  finally have "mset (map m_id (fold (os_put m_id) (reindex l) ms)) = mset (map m_id ms)"
    by simp
  then show ?thesis using d mset_eq_imp_distinct_iff by blast
qed

lemma reorder_mset_ids:
  assumes d: "distinct (map m_id ms)"
    and p: "mset (map m_id l) = mset (index_getAllKeys k0 ms)"
    and q: "\<forall>m\<in>set l. sessionId m = k0"
  shows "mset (fold (os_put m_id) (reindex l) ms) =
         mset (reindex l) + filter_mset (\<lambda>m. sessionId m \<noteq> k0) (mset ms)"
proof -
  have sl: "set (map m_id l) = m_id ` {x \<in> set ms. sessionId x = k0}"
    using mset_eq_setD [OF p] by (auto simp: index_getAllKeys_def index_getAll_def)
  have inj: "inj_on m_id (set ms)" using d by (simp add: distinct_map)
  have "distinct (map m_id (index_getAll k0 ms))"
    unfolding index_getAll_def using d by (rule distinct_map_filter)
  then have "distinct (index_getAllKeys k0 ms)" by (simp add: index_getAllKeys_def)
  then have "distinct (map m_id l)"
    using p mset_eq_imp_distinct_iff by blast
  then have "distinct (map m_id (reindex l))" by (simp add: map_m_id_reindex)
  then have "mset (fold (os_put m_id) (reindex l) ms) =
      mset (reindex l) + filter_mset (\<lambda>y. m_id y \<notin> set (map m_id (reindex l))) (mset ms)"
    by (rule fold_os_put_mset)
  moreover have "filter_mset (\<lambda>y. m_id y \<notin> set (map m_id (reindex l))) (mset ms) =
                 filter_mset (\<lambda>m. sessionId m \<noteq> k0) (mset ms)"
  proof (rule filter_mset_cong [OF refl])
    fix y assume "y \<in># mset ms"
    then have y: "y \<in> set ms" by simp
    show "(m_id y \<notin> set (map m_id (reindex l))) = (sessionId y \<noteq> k0)"
    proof
      assume a: "m_id y \<notin> set (map m_id (reindex l))"
      show "sessionId y \<noteq> k0"
      proof
        assume "sessionId y = k0"
        then have "m_id y \<in> m_id ` {x \<in> set ms. sessionId x = k0}" using y by blast
        then show False using a sl by (simp add: map_m_id_reindex)
      qed
    next
      assume n: "sessionId y \<noteq> k0"
      show "m_id y \<notin> set (map m_id (reindex l))"
      proof
        assume "m_id y \<in> set (map m_id (reindex l))"
        then have "m_id y \<in> m_id ` {x \<in> set ms. sessionId x = k0}"
          using sl by (simp add: map_m_id_reindex)
        then obtain x where x: "x \<in> set ms" "sessionId x = k0" "m_id x = m_id y" by auto
        then have "x = y" using inj y by (auto dest: inj_onD)
        then show False using x(2) n by simp
      qed
    qed
  qed
  ultimately show ?thesis by simp
qed

lemma reorder_index_getAll_ids:
  assumes d: "distinct (map m_id ms)"
    and p: "mset (map m_id l) = mset (index_getAllKeys k0 ms)"
    and q: "\<forall>m\<in>set l. sessionId m = k0"
  shows "mset (index_getAll k0 (fold (os_put m_id) (reindex l) ms)) = mset (reindex l)"
proof -
  have sr: "\<forall>x\<in>set (reindex l). sessionId x = k0"
    using q sessionId_reindex by fastforce
  have "mset (index_getAll k0 (fold (os_put m_id) (reindex l) ms)) =
        filter_mset (\<lambda>m. sessionId m = k0) (mset (reindex l)) +
        filter_mset (\<lambda>m. sessionId m = k0) (filter_mset (\<lambda>m. sessionId m \<noteq> k0) (mset ms))"
    by (simp add: index_getAll_def reorder_mset_ids [OF d p q])
  moreover have "filter_mset (\<lambda>m. sessionId m = k0) (mset (reindex l)) = mset (reindex l)"
    using sr by (auto simp: filter_mset_eq_conv)
  moreover have "filter_mset (\<lambda>m. sessionId m = k0) (filter_mset (\<lambda>m. sessionId m \<noteq> k0) (mset ms)) = {#}"
    by auto
  ultimately show ?thesis by simp
qed

section \<open>Facts about the transactions\<close>

lemma addMediaItem_Inr:
  assumes "addMediaItem item now s = Inr s'"
  shows "media s' = insort_key m_id (item\<lparr>order := index_count (sessionId item) (media s)\<rparr>) (media s)"
    and "\<forall>y\<in>set (media s). m_id y \<noteq> m_id item"
    and "sessions s' = (case os_get s_id (sessionId item) (sessions s) of
                         None \<Rightarrow> sessions s
                       | Some session \<Rightarrow>
                           os_put s_id
                             (session\<lparr>itemCount := itemCount session + 1, lastModified := now\<rparr>)
                             (sessions s))"
proof -
  let ?item' = "item\<lparr>order := index_count (sessionId item) (media s)\<rparr>"
  have k: "m_id ?item' = m_id item" by simp
  obtain ms where ms: "os_add m_id ?item' (media s) = Inr ms"
    using assms by (cases "os_add m_id ?item' (media s)") (simp_all add: addMediaItem_def Let_def)
  have a: "ms = insort_key m_id ?item' (media s)" and b: "\<forall>y\<in>set (media s). m_id y \<noteq> m_id ?item'"
    using os_add_Inr [OF ms] by blast+
  have s': "s' = s\<lparr>media := ms,
                    sessions :=
                      (case os_get s_id (sessionId item) (sessions s) of
                         None \<Rightarrow> sessions s
                       | Some session \<Rightarrow>
                           os_put s_id
                             (session\<lparr>itemCount := itemCount session + 1, lastModified := now\<rparr>)
                             (sessions s))\<rparr>"
    using assms ms by (simp add: addMediaItem_def Let_def)
  show "media s' = insort_key m_id ?item' (media s)" using s' a by simp
  show "\<forall>y\<in>set (media s). m_id y \<noteq> m_id item" using b by simp
  show "sessions s' = (case os_get s_id (sessionId item) (sessions s) of
                         None \<Rightarrow> sessions s
                       | Some session \<Rightarrow>
                           os_put s_id
                             (session\<lparr>itemCount := itemCount session + 1, lastModified := now\<rparr>)
                             (sessions s))"
    using s' by simp
qed

lemma addMediaItem_fresh:
  assumes "\<forall>y\<in>set (media s). m_id y \<noteq> m_id item"
  shows "\<exists>s'. addMediaItem item now s = Inr s'"
  using assms by (simp add: addMediaItem_def Let_def os_add_def list_ex_iff)

lemma deleteSession_media:
  assumes d: "distinct (map m_id (media s))" and r: "deleteSession ident s = Inr s'"
  shows "media s' = filter (\<lambda>m. sessionId m \<noteq> ident) (media s)"
proof -
  have inj: "inj_on m_id (set (media s))" using d by (simp add: distinct_map)
  have "media s' = filter (\<lambda>y. m_id y \<notin> set (index_getAllKeys ident (media s))) (media s)"
    using r by (auto simp: deleteSession_def fold_os_delete)
  also have "\<dots> = filter (\<lambda>m. sessionId m \<noteq> ident) (media s)"
  proof (rule filter_cong [OF refl])
    fix y assume y: "y \<in> set (media s)"
    show "(m_id y \<notin> set (index_getAllKeys ident (media s))) = (sessionId y \<noteq> ident)"
      using y inj by (auto simp: index_getAllKeys_def index_getAll_def dest: inj_onD)
  qed
  finally show ?thesis .
qed

lemma gap_free_cong:
  "mset (index_getAll k (media s')) = mset (index_getAll k (media s)) \<Longrightarrow>
   gap_free k s' = gap_free k s"
proof -
  assume a: "mset (index_getAll k (media s')) = mset (index_getAll k (media s))"
  have "filter_mset (\<lambda>m. sessionId m = k) (mset (media s')) =
        filter_mset (\<lambda>m. sessionId m = k) (mset (media s))"
    using a by (simp add: index_getAll_def)
  then show ?thesis by (simp add: gap_free_mset)
qed

lemma gap_free_add:
  assumes g: "gap_free k s" and r: "addMediaItem item now s = Inr s'"
  shows "gap_free k s'"
proof -
  let ?n = "index_count (sessionId item) (media s)"
  have m: "mset (media s') = add_mset (item\<lparr>order := ?n\<rparr>) (mset (media s))"
    using addMediaItem_Inr(1) [OF r] by simp
  show ?thesis
  proof (cases "sessionId item = k")
    case True
    let ?F = "filter_mset (\<lambda>m. sessionId m = k) (mset (media s))"
    have n: "?n = size ?F" using True by (simp add: index_count_def index_getAll_def flip: size_mset)
    have "image_mset order ?F = mset [0..<size ?F]" using g by (simp add: gap_free_mset)
    then show ?thesis using True m n by (simp add: gap_free_mset)
  next
    case False
    then have "mset (index_getAll k (media s')) = mset (index_getAll k (media s))"
      using m by (simp add: index_getAll_def)
    then show ?thesis using g gap_free_cong by blast
  qed
qed

lemma distinct_add:
  assumes d: "distinct (map m_id (media s))" and r: "addMediaItem item now s = Inr s'"
  shows "distinct (map m_id (media s'))"
proof -
  have "mset (map m_id (media s')) = add_mset (m_id item) (mset (map m_id (media s)))"
    using addMediaItem_Inr(1) [OF r] by simp
  also have "\<dots> = mset (m_id item # map m_id (media s))" by simp
  finally have "distinct (map m_id (media s')) = distinct (m_id item # map m_id (media s))"
    by (rule mset_eq_imp_distinct_iff)
  then show ?thesis using d addMediaItem_Inr(2) [OF r] by auto
qed

lemma gap_free_delete:
  assumes d: "distinct (map m_id (media s))" and g: "gap_free k s"
    and r: "deleteSession ident s = Inr s'"
  shows "gap_free k s'"
proof (cases "k = ident")
  case True
  then have "index_getAll k (media s') = []"
    using deleteSession_media [OF d r] by (simp add: index_getAll_def)
  then show ?thesis by (simp add: gap_free_def index_count_def)
next
  case False
  then have "index_getAll k (media s') = index_getAll k (media s)"
    using deleteSession_media [OF d r] by (auto simp: index_getAll_def intro: filter_cong)
  then show ?thesis using g by (simp add: gap_free_def index_count_def)
qed

lemma handleDragEnd_media:
  "snd (handleDragEnd ui s) = Inr s' \<Longrightarrow>
   media s' = fold (os_put m_id) (reindex (sd_media ui)) (media s) \<and> sessions s' = sessions s"
  by (auto simp: handleDragEnd_def updateMediaItems_def)

lemma gap_free_reorder:
  assumes d: "distinct (map m_id (media s))" and g: "gap_free k s"
    and p: "mset (sd_media ui) = mset (getMediaForSession k0 s)"
    and r: "snd (handleDragEnd ui s) = Inr s'"
  shows "gap_free k s'"
proof -
  have p': "mset (sd_media ui) = mset (index_getAll k0 (media s))"
    using p by (simp add: getMediaForSession_def)
  have m: "media s' = fold (os_put m_id) (reindex (sd_media ui)) (media s)"
    using handleDragEnd_media [OF r] by simp
  have i: "mset (index_getAll k (media s')) =
           (if k = k0 then mset (reindex (sd_media ui)) else mset (index_getAll k (media s)))"
    unfolding m by (rule reorder_index_getAll [OF d p'])
  show ?thesis
  proof (cases "k = k0")
    case True
    let ?xs = "map order (index_getAll k (media s'))"
    have "mset (index_getAll k (media s')) = mset (reindex (sd_media ui))"
      using i True by simp
    then have "image_mset order (mset (index_getAll k (media s'))) =
               image_mset order (mset (reindex (sd_media ui)))"
      by (rule arg_cong)
    then have "mset ?xs = mset (map order (reindex (sd_media ui)))"
      by simp
    then have a: "mset ?xs = mset [0..<length (sd_media ui)]"
      by (simp only: map_order_reindex)
    have "size (mset ?xs) = size (mset [0..<length (sd_media ui)])"
      using a by (rule arg_cong)
    then have "length ?xs = length (sd_media ui)"
      by (simp only: size_mset length_upt diff_zero)
    then have "mset ?xs = mset [0..<length ?xs]" using a by (simp only:)
    then have "distinct ?xs \<and> set ?xs = {0..<length ?xs}" by (simp only: gap_free_list_iff)
    then show ?thesis by (simp add: gap_free_def index_count_def)
  next
    case False
    then have "mset (index_getAll k (media s')) = mset (index_getAll k (media s))"
      using i by simp
    then show ?thesis using g gap_free_cong by blast
  qed
qed

lemma distinct_reorder:
  assumes d: "distinct (map m_id (media s))"
    and p: "mset (sd_media ui) = mset (getMediaForSession k0 s)"
    and r: "snd (handleDragEnd ui s) = Inr s'"
  shows "distinct (map m_id (media s'))"
proof -
  have p': "mset (sd_media ui) = mset (index_getAll k0 (media s))"
    using p by (simp add: getMediaForSession_def)
  show ?thesis using handleDragEnd_media [OF r] reorder_ids [OF d p'] by simp
qed

lemma sorted_key_reindex: "sorted (map (\<lambda>m. (order m, createdAt m)) (reindex l))"
proof -
  have "sorted_wrt (<) (map order (reindex l))"
    by (simp only: map_order_reindex sorted_wrt_upt)
  then have "sorted_wrt (\<lambda>a b. order a < order b) (reindex l)"
    by (simp only: sorted_wrt_map)
  then have "sorted_wrt (\<lambda>a b. (order a, createdAt a) \<le> (order b, createdAt b)) (reindex l)"
    by (rule sorted_wrt_mono_rel [rotated]) (simp add: less_eq_prod_def)
  then show ?thesis by (simp only: sorted_wrt_map)
qed

lemma inj_key_reindex: "inj_on (\<lambda>m. (order m, createdAt m)) (set (reindex l))"
proof -
  have "distinct (map order (reindex l))" by (simp only: map_order_reindex distinct_upt)
  then have "inj_on order (set (reindex l))" by (simp add: distinct_map)
  then show ?thesis by (auto simp: inj_on_def)
qed

lemma fold_os_put_keeps:
  "x \<in> set xs \<Longrightarrow> key x \<notin> key ` set us \<Longrightarrow> x \<in> set (fold (os_put key) us xs)"
  by (induction us arbitrary: xs) (auto simp: set_os_put)

lemma fold_os_put_get:
  "distinct (map key us) \<Longrightarrow> u \<in> set us \<Longrightarrow> os_get key (key u) (fold (os_put key) us xs) = Some u"
proof (induction us arbitrary: xs)
  case Nil
  then show ?case by simp
next
  case (Cons a us)
  show ?case
  proof (cases "u \<in> set us")
    case True
    then show ?thesis using Cons by simp
  next
    case False
    then have ua: "u = a" using Cons.prems by simp
    have n: "key a \<notin> key ` set us" using Cons.prems by simp
    have "os_get key (key a) (fold (os_put key) us ys) = os_get key (key a) ys" for ys
      using n
    proof (induction us arbitrary: ys)
      case Nil
      then show ?case by simp
    next
      case (Cons b us)
      then show ?case by (simp add: os_get_os_put_other)
    qed
    then show ?thesis using ua by (simp add: os_get_os_put)
  qed
qed

lemma find_snoc:
  "find P (xs @ [x]) = (case find P xs of Some v \<Rightarrow> Some v | None \<Rightarrow> if P x then Some x else None)"
  by (induction xs) auto

lemma os_get_os_put_cases:
  "os_get key k (os_put key v xs) = (if key v = k then Some v else os_get key k xs)"
  using os_get_os_put [of key v xs] os_get_os_put_other [of k key v xs] by auto

lemma fold_os_put_lookup:
  "os_get key k (fold (os_put key) us xs) =
     (case find (\<lambda>y. key y = k) (rev us) of Some v \<Rightarrow> Some v | None \<Rightarrow> os_get key k xs)"
proof (induction us arbitrary: xs)
  case Nil
  then show ?case by simp
next
  case (Cons u us)
  have "os_get key k (fold (os_put key) (u # us) xs) =
        (case find (\<lambda>y. key y = k) (rev us) of
           Some v \<Rightarrow> Some v | None \<Rightarrow> os_get key k (os_put key u xs))"
    using Cons.IH [of "os_put key u xs"] by simp
  then show ?case
    by (simp add: find_snoc os_get_os_put_cases split: option.splits)
qed

lemma index_getAll_after_delete:
  "index_getAll ident (fold (os_delete m_id) (index_getAllKeys ident ms) ms) = []"
  by (auto simp: fold_os_delete index_getAll_def index_getAllKeys_def filter_empty_conv)

lemma saveMedia_fresh:
  assumes "\<forall>y\<in>set (media s). m_id y \<noteq> newId r"
  shows "\<exists>it. getMediaItem (newId r) (snd (saveMedia b ty flagged r cv s)) = Some it \<and>
              trimNeeded it = Some flagged \<and> sessionId it = cv_sessionId cv \<and>
              m_type it = ty \<and> blob it = b"
proof -
  define item where "item = \<lparr>m_id = newId r, sessionId = cv_sessionId cv, m_type = ty, blob = b,
                   createdAt = t_item r,
                   duration = Some (if ty = Video then real (recordingTime cv) else 0),
                   trimNeeded = Some flagged, trimEndTime = None, order = 0, crop = None\<rparr>"
  have k: "m_id item = newId r" by (simp add: item_def)
  have f: "\<forall>y\<in>set (media s). m_id y \<noteq> m_id item" using assms k by simp
  obtain s' where r: "addMediaItem item (t_tx r) s = Inr s'"
    using addMediaItem_fresh [OF f] by blast
  have m: "media s' = insort_key m_id (item\<lparr>order := index_count (sessionId item) (media s)\<rparr>) (media s)"
    by (rule addMediaItem_Inr(1) [OF r])
  have s: "snd (saveMedia b ty flagged r cv s) = s'"
    using r by (simp add: saveMedia_def item_def)
  have "getMediaItem (newId r) s' = Some (item\<lparr>order := index_count (sessionId item) (media s)\<rparr>)"
    unfolding getMediaItem_def os_get_def m
    by (rule find_insort_key_fresh) (use f k in auto)
  then show ?thesis unfolding s by (simp add: item_def)
qed

text \<open>
  The run of the three example clips: the first ends at its natural end, 5 s; the second at
  the first observed position that reaches its trim, 1.5 s; the third at its natural end, 4 s;
  then the player is closed.
\<close>

lemma scenario_B:
  "run_merge [media_events 5 ex_ticks, media_events 3 ex_ticks, media_events 4 ex_ticks]
       (handleMerge (ex_ui ex_queue)) =
     ([Ended 5, TimeUpdate 1.5, Ended 4],
      (ex_ui ex_queue)\<lparr>mergeQueue := ex_queue, currentMergeIndex := 2, isMerging := False\<rparr>)"
  by (simp add: handleMerge_def ex_ui_def ex_queue_def ex_clip_def media_events_def ex_ticks_def
      merge_key_def nth_opt_def handleMergeTimeUpdate_def playNextInQueue_def Let_def)

section \<open>Adding a media item\<close>

text \<open>
  C1, as the code has it. \<open>addMediaItem\<close> has no failure for a missing session: the
  session is written back only \<open>if (session)\<close>. When the item's \<open>sessionId\<close> names no
  stored session and its id is new, the transaction completes, the item is stored with
  \<open>order\<close> set to the number of items that already carry that \<open>sessionId\<close>, the session
  store is unchanged, and \<open>getMediaForSession\<close> returns the item.
\<close>

theorem add_without_session:
  assumes "os_get s_id (sessionId item) (sessions s) = None"
    and "m_id item \<notin> set (map m_id (media s))"
  shows "\<exists>s'. addMediaItem item now s = Inr s' \<and> sessions s' = sessions s \<and>
          getMediaItem (m_id item) s' =
            Some (item\<lparr>order := index_count (sessionId item) (media s)\<rparr>) \<and>
          item\<lparr>order := index_count (sessionId item) (media s)\<rparr>
            \<in> set (getMediaForSession (sessionId item) s')"
proof -
  let ?item' = "item\<lparr>order := index_count (sessionId item) (media s)\<rparr>"
  have f: "\<forall>y\<in>set (media s). m_id y \<noteq> m_id item" using assms(2) by (auto simp: image_iff)
  obtain s' where r: "addMediaItem item now s = Inr s'"
    using addMediaItem_fresh [OF f] by blast
  have m: "media s' = insort_key m_id ?item' (media s)" by (rule addMediaItem_Inr(1) [OF r])
  have "sessions s' = sessions s" using addMediaItem_Inr(3) [OF r] assms(1) by simp
  moreover have "getMediaItem (m_id item) s' = Some ?item'"
    unfolding getMediaItem_def os_get_def m
    by (rule find_insort_key_fresh) (use f in auto)
  moreover have "?item' \<in> set (getMediaForSession (sessionId item) s')"
    by (simp add: getMediaForSession_def index_getAll_def m set_insort_key)
  ultimately show ?thesis using r by blast
qed

text \<open>
  C1, the claim refuted: in the empty database the session \<open>ghost\<close> does not exist, yet
  adding an item for it resolves, the item is in the media store, and
  \<open>getMediaForSession\<close> reads it.
\<close>

theorem add_without_session_counterexample:
  "os_get s_id ''ghost'' (sessions \<lparr>sessions = [], media = []\<rparr>) = None \<and>
   addMediaItem ex_orphan 1000 \<lparr>sessions = [], media = []\<rparr> = Inr \<lparr>sessions = [], media = [ex_orphan]\<rparr> \<and>
   getMediaForSession ''ghost'' \<lparr>sessions = [], media = [ex_orphan]\<rparr> = [ex_orphan]"
  by (simp add: os_get_def addMediaItem_def os_add_def index_count_def index_getAll_def
      ex_orphan_def getMediaForSession_def)

text \<open>
  C1, an instance: an item for the unknown session \<open>s9\<close> added to the example store.
\<close>

theorem add_without_session_witness:
  "os_get s_id ''s9'' (sessions ex_db) = None \<and> ''m1'' \<notin> set (map m_id (media ex_db)) \<and>
   (\<exists>s'. addMediaItem (ex_orphan\<lparr>sessionId := ''s9''\<rparr>) 2000 ex_db = Inr s' \<and>
         sessions s' = sessions ex_db \<and>
         getMediaItem ''m1'' s' = Some (ex_orphan\<lparr>sessionId := ''s9''\<rparr>))"
proof -
  let ?item = "ex_orphan\<lparr>sessionId := ''s9''\<rparr>"
  have i: "m_id ?item = ''m1''" "sessionId ?item = ''s9''" by (simp_all add: ex_orphan_def)
  have a: "os_get s_id (sessionId ?item) (sessions ex_db) = None"
    by (simp add: os_get_def ex_db_def ex_session_def)
  have b: "m_id ?item \<notin> set (map m_id (media ex_db))"
    by (simp add: ex_db_def ex_clip_def ex_orphan_def)
  have c: "?item\<lparr>order := index_count (sessionId ?item) (media ex_db)\<rparr> = ?item"
    by (simp add: index_count_def index_getAll_def ex_db_def ex_clip_def ex_orphan_def)
  obtain s' where "addMediaItem ?item 2000 ex_db = Inr s'" "sessions s' = sessions ex_db"
    "getMediaItem (m_id ?item) s' = Some ?item"
    using add_without_session [OF a b, of 2000] unfolding c by blast
  then have "\<exists>s'. addMediaItem ?item 2000 ex_db = Inr s' \<and> sessions s' = sessions ex_db \<and>
         getMediaItem ''m1'' s' = Some ?item"
    unfolding i by blast
  then show ?thesis using a b unfolding i by blast
qed

text \<open>
  C3, as the code has it. When the session of the item exists and \<open>addMediaItem\<close>
  completes, the stored item has \<open>order\<close> equal to the number of the session's items before
  the call, that number has grown by one, and the stored session is the old one with
  \<open>itemCount\<close> one higher and \<open>lastModified\<close> set to the \<open>Date.now()\<close> read in the
  transaction, whatever that reading is: it is later than the old value exactly when the
  clock has advanced past it.
\<close>

theorem add_updates_session:
  assumes "os_get s_id (sessionId item) (sessions s) = Some S"
    and "addMediaItem item now s = Inr s'"
  shows "getMediaItem (m_id item) s' =
           Some (item\<lparr>order := index_count (sessionId item) (media s)\<rparr>) \<and>
         index_count (sessionId item) (media s') = index_count (sessionId item) (media s) + 1 \<and>
         (\<exists>S'. os_get s_id (sessionId item) (sessions s') = Some S' \<and>
               S' = S\<lparr>itemCount := itemCount S + 1, lastModified := now\<rparr> \<and>
               itemCount S' = itemCount S + 1 \<and> lastModified S' = now)"
proof -
  let ?item' = "item\<lparr>order := index_count (sessionId item) (media s)\<rparr>"
  let ?S' = "S\<lparr>itemCount := itemCount S + 1, lastModified := now\<rparr>"
  have m: "media s' = insort_key m_id ?item' (media s)" by (rule addMediaItem_Inr(1) [OF assms(2)])
  have f: "\<forall>y\<in>set (media s). m_id y \<noteq> m_id item" by (rule addMediaItem_Inr(2) [OF assms(2)])
  have k: "s_id S = sessionId item" using os_get_key [OF assms(1)] by simp
  have a: "getMediaItem (m_id item) s' = Some ?item'"
    unfolding getMediaItem_def os_get_def m
    by (rule find_insort_key_fresh) (use f in auto)
  have "mset (index_getAll (sessionId item) (media s')) =
        add_mset ?item' (mset (index_getAll (sessionId item) (media s)))"
    by (simp add: m index_getAll_def)
  then have "size (mset (index_getAll (sessionId item) (media s'))) =
        size (add_mset ?item' (mset (index_getAll (sessionId item) (media s))))"
    by (rule arg_cong)
  then have b: "index_count (sessionId item) (media s') = index_count (sessionId item) (media s) + 1"
    by (simp add: index_count_def)
  have "sessions s' = os_put s_id ?S' (sessions s)"
    using addMediaItem_Inr(3) [OF assms(2)] assms(1) by simp
  moreover have "os_get s_id (s_id ?S') (os_put s_id ?S' (sessions s)) = Some ?S'"
    by (rule os_get_os_put)
  ultimately have c: "os_get s_id (sessionId item) (sessions s') = Some ?S'"
    using k by simp
  show ?thesis using a b c by simp
qed

text \<open>
  C3, the claim refuted: the session was last modified at 1000 and the item is added in
  the same millisecond; the add completes, \<open>itemCount\<close> goes from 3 to 4, and
  \<open>lastModified\<close> is 1000 as before, not later.
\<close>

theorem add_updates_session_counterexample:
  "os_get s_id ''s1'' (sessions ex_db) = Some (ex_session 3) \<and>
   addMediaItem (ex_clip ''d'' 0 2 None) 1000 ex_db =
     Inr \<lparr>sessions = [ex_session 4],
          media = [ex_clip ''a'' 0 5 None, ex_clip ''b'' 1 3 None, ex_clip ''c'' 2 4 None,
                   ex_clip ''d'' 0 2 None\<lparr>order := 3\<rparr>]\<rparr> \<and>
   lastModified (ex_session 4) = lastModified (ex_session 3)"
  by (simp add: os_get_def addMediaItem_def os_add_def os_put_def index_count_def index_getAll_def
      ex_db_def ex_session_def ex_clip_def)

text \<open>
  C3, an instance: the third clip added at time 2000 to the store of two.
\<close>

theorem add_updates_session_witness:
  "os_get s_id ''s1'' (sessions ex_db2) = Some (ex_session 2) \<and>
   addMediaItem (ex_clip ''c'' 0 4 None) 2000 ex_db2 =
     Inr \<lparr>sessions = [(ex_session 3)\<lparr>lastModified := 2000\<rparr>], media = media ex_db\<rparr> \<and>
   getMediaItem ''c'' \<lparr>sessions = [(ex_session 3)\<lparr>lastModified := 2000\<rparr>], media = media ex_db\<rparr> =
     Some (ex_clip ''c'' 2 4 None) \<and>
   index_count ''s1'' (media ex_db) = index_count ''s1'' (media ex_db2) + 1"
proof -
  have a: "os_get s_id (sessionId (ex_clip ''c'' 0 4 None)) (sessions ex_db2) = Some (ex_session 2)"
    by (simp add: os_get_def ex_db2_def ex_session_def ex_clip_def)
  have b: "addMediaItem (ex_clip ''c'' 0 4 None) 2000 ex_db2 =
     Inr \<lparr>sessions = [(ex_session 3)\<lparr>lastModified := 2000\<rparr>], media = media ex_db\<rparr>"
    by (simp add: os_get_def addMediaItem_def os_add_def os_put_def index_count_def index_getAll_def
      ex_db_def ex_db2_def ex_session_def ex_clip_def)
  have c: "index_count ''s1'' (media ex_db2) = 2"
    by (simp add: index_count_def index_getAll_def ex_db2_def ex_clip_def)
  show ?thesis
    using a b add_updates_session [OF a b] by (simp add: ex_clip_def c)
qed

section \<open>The order invariant\<close>

text \<open>
  C2. In a store whose media ids are distinct (the key path is \<open>id\<close>), if the
  \<open>order\<close> values of a session's items are exactly \<open>0, \<dots>, n - 1\<close> without duplicates, they
  still are after any write that creates, deletes or reorders media items: \<open>createSession\<close>,
  \<open>addMediaItem\<close> (the new item gets \<open>order = n\<close>), \<open>deleteSession\<close> (the cascade) and the
  drag reorder persisted over the full list of a session (\<open>order = index\<close>). The ids stay
  distinct. This holds for every session id \<open>k\<close>, the one written to or any other.
\<close>

theorem order_invariant_preserved:
  assumes "distinct (map m_id (media s))" and "gap_free k s" and "store_step s s'"
  shows "gap_free k s' \<and> distinct (map m_id (media s'))"
  using assms(3)
proof (cases rule: store_step.cases)
  case (step_create nm newId now x)
  then have "media s' = media s"
    by (auto simp: createSession_def Let_def split: sum.splits)
  then show ?thesis using assms(1,2) by (simp add: gap_free_def)
next
  case (step_add item now)
  then show ?thesis using assms(1,2) gap_free_add distinct_add by blast
next
  case (step_delete ident)
  have "distinct (map m_id (media s'))"
    using deleteSession_media [OF assms(1) step_delete] assms(1) by (simp add: distinct_map_filter)
  then show ?thesis using gap_free_delete [OF assms(1,2) step_delete] by simp
next
  case (step_reorder ui k0)
  then show ?thesis using assms(1,2) gap_free_reorder distinct_reorder by blast
qed

text \<open>
  C2, an instance: adding the third clip to the store of two clips.
\<close>

theorem order_invariant_preserved_witness:
  "distinct (map m_id (media ex_db2)) \<and> gap_free ''s1'' ex_db2 \<and>
   store_step ex_db2 \<lparr>sessions = [(ex_session 3)\<lparr>lastModified := 2000\<rparr>], media = media ex_db\<rparr> \<and>
   gap_free ''s1'' \<lparr>sessions = [(ex_session 3)\<lparr>lastModified := 2000\<rparr>], media = media ex_db\<rparr> \<and>
   distinct (map m_id (media ex_db))"
proof -
  have a: "distinct (map m_id (media ex_db2))" by (simp add: ex_db2_def ex_clip_def)
  have b: "gap_free ''s1'' ex_db2"
    by (simp add: gap_free_def index_count_def index_getAll_def ex_db2_def ex_clip_def
        atLeast0_lessThan_Suc insert_commute)
  have "addMediaItem (ex_clip ''c'' 0 4 None) 2000 ex_db2 =
     Inr \<lparr>sessions = [(ex_session 3)\<lparr>lastModified := 2000\<rparr>], media = media ex_db\<rparr>"
    by (simp add: os_get_def addMediaItem_def os_add_def os_put_def index_count_def index_getAll_def
      ex_db_def ex_db2_def ex_session_def ex_clip_def)
  then have c: "store_step ex_db2 \<lparr>sessions = [(ex_session 3)\<lparr>lastModified := 2000\<rparr>], media = media ex_db\<rparr>"
    by (rule step_add)
  have d: "gap_free ''s1'' \<lparr>sessions = [(ex_session 3)\<lparr>lastModified := 2000\<rparr>], media = media ex_db\<rparr>"
    using order_invariant_preserved [OF a b c] by (rule conjunct1)
  have e: "distinct (map m_id (media ex_db))"
    using order_invariant_preserved [OF a b c] by simp
  show ?thesis by (intro conjI a b c d e)
qed

section \<open>Reordering\<close>

text \<open>
  C4, as the code has it. \<open>updateMediaItems\<close> validates nothing: for any list of items
  the transaction completes and the sessions are untouched. Every stored item whose id is
  not in the list stays as it was. Reading any id afterwards returns the last item of the
  list with that id (\<open>forEach(put)\<close>: a later put replaces an earlier one), and what was
  stored before when the list has none; so with distinct listed ids every listed item is
  stored under its id.
\<close>

theorem reorder_unvalidated:
  "\<exists>s'. updateMediaItems items s = Inr s' \<and> sessions s' = sessions s \<and>
        (\<forall>x\<in>set (media s). m_id x \<notin> m_id ` set items \<longrightarrow> x \<in> set (media s')) \<and>
        (\<forall>k. getMediaItem k s' =
              (case find (\<lambda>y. m_id y = k) (rev items) of
                 Some v \<Rightarrow> Some v
               | None \<Rightarrow> getMediaItem k s)) \<and>
        (distinct (map m_id items) \<longrightarrow> (\<forall>u\<in>set items. getMediaItem (m_id u) s' = Some u))"
proof -
  define s' where "s' = s\<lparr>media := fold (os_put m_id) items (media s)\<rparr>"
  have a: "updateMediaItems items s = Inr s'" by (simp add: updateMediaItems_def s'_def)
  have b: "sessions s' = sessions s" by (simp add: s'_def)
  have c: "\<forall>x\<in>set (media s). m_id x \<notin> m_id ` set items \<longrightarrow> x \<in> set (media s')"
    by (simp add: s'_def fold_os_put_keeps)
  have d: "\<forall>k. getMediaItem k s' =
              (case find (\<lambda>y. m_id y = k) (rev items) of
                 Some v \<Rightarrow> Some v
               | None \<Rightarrow> getMediaItem k s)"
    unfolding getMediaItem_def by (simp add: s'_def fold_os_put_lookup)
  have e: "distinct (map m_id items) \<longrightarrow> (\<forall>u\<in>set items. getMediaItem (m_id u) s' = Some u)"
    unfolding getMediaItem_def by (simp add: s'_def fold_os_put_get)
  show ?thesis by (rule exI [of _ s']) (intro conjI a b c d e)
qed

text \<open>
  C4, the claim refuted: the view holds only clip \<open>c\<close> of the three stored clips, which
  is no permutation of the session's ids; the reorder completes all the same and rewrites
  \<open>c\<close> to \<open>order = 0\<close>, so the stored orders 0, 1, 2 become 0, 0, 1.
\<close>

theorem reorder_unvalidated_counterexample:
  "mset (map m_id (sd_media (ex_ui [ex_clip ''c'' 2 4 None]))) \<noteq> mset (index_getAllKeys ''s1'' (media ex_db)) \<and>
   snd (handleDragEnd (ex_ui [ex_clip ''c'' 2 4 None]) ex_db) =
     Inr \<lparr>sessions = [ex_session 3],
          media = [ex_clip ''a'' 0 5 None, ex_clip ''b'' 1 3 None, ex_clip ''c'' 0 4 None]\<rparr> \<and>
   map order (getMediaForSession ''s1'' ex_db) = [0, 1, 2] \<and>
   map order (getMediaForSession ''s1'' \<lparr>sessions = [ex_session 3],
          media = [ex_clip ''a'' 0 5 None, ex_clip ''b'' 1 3 None, ex_clip ''c'' 0 4 None]\<rparr>) = [0, 0, 1]"
  by (simp add: handleDragEnd_def updateMediaItems_def reindex_def os_put_def index_getAllKeys_def
      index_getAll_def getMediaForSession_def ex_db_def ex_ui_def ex_clip_def ex_session_def
      enumerate_eq_zip)

text \<open>
  C4, instances on the example store: the one-item list, and a list that names \<open>c\<close>
  twice, of which the second is the one stored.
\<close>

theorem reorder_unvalidated_witness:
  "''a'' \<notin> m_id ` set [ex_clip ''c'' 0 4 None] \<and> distinct (map m_id [ex_clip ''c'' 0 4 None]) \<and>
   (\<exists>s'. updateMediaItems [ex_clip ''c'' 0 4 None] ex_db = Inr s' \<and>
         ex_clip ''a'' 0 5 None \<in> set (media s') \<and>
         getMediaItem ''c'' s' = Some (ex_clip ''c'' 0 4 None)) \<and>
   (\<exists>s'. updateMediaItems [ex_clip ''c'' 0 4 None, ex_clip ''c'' 7 4 None] ex_db = Inr s' \<and>
         getMediaItem ''c'' s' = Some (ex_clip ''c'' 7 4 None) \<and>
         getMediaItem ''b'' s' = getMediaItem ''b'' ex_db)"
proof -
  have a: "ex_clip ''a'' 0 5 None \<in> set (media ex_db)" by (simp add: ex_db_def)
  have b: "m_id (ex_clip ''a'' 0 5 None) \<notin> m_id ` set [ex_clip ''c'' 0 4 None]"
    by (simp add: ex_clip_def)
  have c: "distinct (map m_id [ex_clip ''c'' 0 4 None])" by simp
  obtain s' where s': "updateMediaItems [ex_clip ''c'' 0 4 None] ex_db = Inr s'"
    "\<forall>x\<in>set (media ex_db). m_id x \<notin> m_id ` set [ex_clip ''c'' 0 4 None] \<longrightarrow> x \<in> set (media s')"
    "distinct (map m_id [ex_clip ''c'' 0 4 None]) \<longrightarrow>
       (\<forall>u\<in>set [ex_clip ''c'' 0 4 None]. getMediaItem (m_id u) s' = Some u)"
    using reorder_unvalidated [of "[ex_clip ''c'' 0 4 None]" ex_db] by blast
  have "ex_clip ''a'' 0 5 None \<in> set (media s')" using s'(2) a b by blast
  moreover have "getMediaItem ''c'' s' = Some (ex_clip ''c'' 0 4 None)"
    using s'(3) c by (simp add: ex_clip_def)
  ultimately have d: "\<exists>s'. updateMediaItems [ex_clip ''c'' 0 4 None] ex_db = Inr s' \<and>
         ex_clip ''a'' 0 5 None \<in> set (media s') \<and>
         getMediaItem ''c'' s' = Some (ex_clip ''c'' 0 4 None)"
    using s'(1) by blast
  obtain t' where t': "updateMediaItems [ex_clip ''c'' 0 4 None, ex_clip ''c'' 7 4 None] ex_db = Inr t'"
    "\<forall>k. getMediaItem k t' =
       (case find (\<lambda>y. m_id y = k) (rev [ex_clip ''c'' 0 4 None, ex_clip ''c'' 7 4 None]) of
          Some v \<Rightarrow> Some v | None \<Rightarrow> getMediaItem k ex_db)"
    using reorder_unvalidated [of "[ex_clip ''c'' 0 4 None, ex_clip ''c'' 7 4 None]" ex_db] by blast
  have "getMediaItem ''c'' t' = Some (ex_clip ''c'' 7 4 None)"
    using t'(2) [rule_format, of "''c''"] by (simp add: ex_clip_def)
  moreover have "getMediaItem ''b'' t' = getMediaItem ''b'' ex_db"
    using t'(2) [rule_format, of "''b''"] by (simp add: ex_clip_def)
  ultimately have e: "\<exists>s'. updateMediaItems [ex_clip ''c'' 0 4 None, ex_clip ''c'' 7 4 None] ex_db = Inr s' \<and>
         getMediaItem ''c'' s' = Some (ex_clip ''c'' 7 4 None) \<and>
         getMediaItem ''b'' s' = getMediaItem ''b'' ex_db"
    using t'(1) by blast
  have b': "''a'' \<notin> m_id ` set [ex_clip ''c'' 0 4 None]" using b by (simp add: ex_clip_def)
  show ?thesis by (intro conjI b' c d e)
qed

text \<open>
  C7. Persisting a reorder writes to the media store only: the transaction of
  \<open>updateMediaItems\<close>, as \<open>handleDragEnd\<close> calls it, completes and the session store it leaves
  behind is the one it found, so every session keeps its \<open>lastModified\<close> and every other
  field, and \<open>getSessions\<close> reads what it read before.
\<close>

theorem reorder_keeps_sessions:
  "\<exists>s'. snd (handleDragEnd ui s) = Inr s' \<and> sessions s' = sessions s \<and>
        getSessions s' = getSessions s \<and>
        map lastModified (sessions s') = map lastModified (sessions s)"
  by (simp add: handleDragEnd_def updateMediaItems_def getSessions_def)

text \<open>
  C8. In a store with distinct media ids, when the ids of the list the view holds are a
  permutation of the ids of the stored items of session \<open>k\<close>, the held items carry
  \<open>sessionId = k\<close>, and the drag reorder is persisted, \<open>getMediaForSession k\<close> then returns
  exactly the held list with \<open>order\<close> set to the index: the ids come back in the sequence
  they were given. The held records need not be the stored ones (after a first drag the
  view still holds the orders it loaded).
\<close>

theorem reorder_then_read:
  assumes d: "distinct (map m_id (media s))"
    and p: "mset (map m_id (sd_media ui)) = mset (index_getAllKeys k (media s))"
    and q: "\<forall>m\<in>set (sd_media ui). sessionId m = k"
    and r: "snd (handleDragEnd ui s) = Inr s'"
  shows "getMediaForSession k s' = reindex (sd_media ui) \<and>
         map m_id (getMediaForSession k s') = map m_id (sd_media ui)"
proof -
  have m: "media s' = fold (os_put m_id) (reindex (sd_media ui)) (media s)"
    using handleDragEnd_media [OF r] by simp
  have i: "mset (index_getAll k (media s')) = mset (reindex (sd_media ui))"
    unfolding m by (rule reorder_index_getAll_ids [OF d p q])
  have "set (index_getAll k (media s')) = set (reindex (sd_media ui))"
    using i by (rule mset_eq_setD)
  then have inj: "inj_on (\<lambda>m. (order m, createdAt m)) (set (index_getAll k (media s')))"
    using inj_key_reindex by simp
  have "sort_key (\<lambda>m. (order m, createdAt m)) (index_getAll k (media s')) = reindex (sd_media ui)"
    using i inj sorted_key_reindex by (rule sort_key_inj_key_eq)
  then have g: "getMediaForSession k s' = reindex (sd_media ui)"
    by (simp add: getMediaForSession_def)
  then show ?thesis by (simp add: map_m_id_reindex)
qed

text \<open>
  C8, an instance: a second drag in one view. The store holds the orders of the first
  drag (\<open>c, a, b\<close>), the view still holds the records it loaded, now in the sequence
  \<open>b, c, a\<close>, and that sequence is what is read back.
\<close>

theorem reorder_then_read_witness:
  "distinct (map m_id [ex_clip ''a'' 1 5 None, ex_clip ''b'' 2 3 None, ex_clip ''c'' 0 4 None]) \<and>
   mset (map m_id (sd_media (ex_ui [ex_clip ''b'' 1 3 None, ex_clip ''c'' 2 4 None, ex_clip ''a'' 0 5 None]))) =
     mset (index_getAllKeys ''s1'' [ex_clip ''a'' 1 5 None, ex_clip ''b'' 2 3 None, ex_clip ''c'' 0 4 None]) \<and>
   list_all (\<lambda>m. sessionId m = ''s1'')
     (sd_media (ex_ui [ex_clip ''b'' 1 3 None, ex_clip ''c'' 2 4 None, ex_clip ''a'' 0 5 None])) \<and>
   snd (handleDragEnd (ex_ui [ex_clip ''b'' 1 3 None, ex_clip ''c'' 2 4 None, ex_clip ''a'' 0 5 None])
          \<lparr>sessions = [ex_session 3],
           media = [ex_clip ''a'' 1 5 None, ex_clip ''b'' 2 3 None, ex_clip ''c'' 0 4 None]\<rparr>) =
     Inr \<lparr>sessions = [ex_session 3],
          media = [ex_clip ''a'' 2 5 None, ex_clip ''b'' 0 3 None, ex_clip ''c'' 1 4 None]\<rparr> \<and>
   map m_id (getMediaForSession ''s1'' \<lparr>sessions = [ex_session 3],
          media = [ex_clip ''a'' 2 5 None, ex_clip ''b'' 0 3 None, ex_clip ''c'' 1 4 None]\<rparr>) =
     [''b'', ''c'', ''a'']"
proof -
  let ?held = "[ex_clip ''b'' 1 3 None, ex_clip ''c'' 2 4 None, ex_clip ''a'' 0 5 None]"
  let ?ui = "ex_ui ?held"
  let ?s = "\<lparr>sessions = [ex_session 3],
           media = [ex_clip ''a'' 1 5 None, ex_clip ''b'' 2 3 None, ex_clip ''c'' 0 4 None]\<rparr>"
  let ?s' = "\<lparr>sessions = [ex_session 3],
          media = [ex_clip ''a'' 2 5 None, ex_clip ''b'' 0 3 None, ex_clip ''c'' 1 4 None]\<rparr>"
  have a: "distinct (map m_id [ex_clip ''a'' 1 5 None, ex_clip ''b'' 2 3 None, ex_clip ''c'' 0 4 None])"
    by (simp add: ex_clip_def)
  then have a': "distinct (map m_id (media ?s))" by simp
  have b: "mset (map m_id (sd_media ?ui)) =
           mset (index_getAllKeys ''s1'' [ex_clip ''a'' 1 5 None, ex_clip ''b'' 2 3 None, ex_clip ''c'' 0 4 None])"
    by (simp add: ex_ui_def ex_clip_def index_getAllKeys_def index_getAll_def)
  then have b': "mset (map m_id (sd_media ?ui)) = mset (index_getAllKeys ''s1'' (media ?s))" by simp
  have q: "list_all (\<lambda>m. sessionId m = ''s1'') (sd_media ?ui)"
    by (simp add: ex_ui_def ex_clip_def)
  then have q': "\<forall>m\<in>set (sd_media ?ui). sessionId m = ''s1''" by (simp add: list_all_iff)
  have c: "snd (handleDragEnd ?ui ?s) = Inr ?s'"
    by (simp add: handleDragEnd_def updateMediaItems_def reindex_def os_put_def
      ex_ui_def ex_clip_def ex_session_def enumerate_eq_zip)
  have d: "map m_id (getMediaForSession ''s1'' ?s') = map m_id (sd_media ?ui)"
    using reorder_then_read [OF a' b' q' c] by (rule conjunct2)
  have e: "map m_id (sd_media ?ui) = [''b'', ''c'', ''a'']"
    by (simp add: ex_ui_def ex_clip_def)
  show ?thesis by (intro conjI a b q c) (simp only: d e)
qed

section \<open>Deleting a session\<close>

text \<open>
  C5, as the code has it. \<open>deleteSession\<close> always completes; afterwards
  \<open>getMediaForSession\<close> of the id is empty and no session of \<open>getSessions\<close> has the id; a
  second call returns the state of the first unchanged. For an id with no session the
  session store is unchanged and no error is raised, but the media items that carry the id
  as \<open>sessionId\<close> are still removed: the call changes nothing exactly when there are none.
\<close>

theorem deleteSession_cascade:
  "\<exists>s'. deleteSession ident s = Inr s' \<and>
        getMediaForSession ident s' = [] \<and>
        ident \<notin> s_id ` set (getSessions s') \<and>
        deleteSession ident s' = Inr s' \<and>
        (os_get s_id ident (sessions s) = None \<longrightarrow>
           sessions s' = sessions s \<and> (index_getAll ident (media s) = [] \<longrightarrow> s' = s))"
proof -
  define s' where "s' = s\<lparr>sessions := os_delete s_id ident (sessions s),
               media := fold (os_delete m_id) (index_getAllKeys ident (media s)) (media s)\<rparr>"
  have r: "deleteSession ident s = Inr s'" by (simp add: deleteSession_def s'_def)
  have e: "index_getAll ident (media s') = []" by (simp add: index_getAll_after_delete s'_def)
  then have a: "getMediaForSession ident s' = []" by (simp add: getMediaForSession_def)
  have b: "ident \<notin> s_id ` set (getSessions s')"
    by (auto simp: getSessions_def os_delete_def s'_def)
  have "os_delete s_id ident (sessions s') = sessions s'"
    by (simp add: os_delete_def s'_def)
  moreover have "index_getAllKeys ident (media s') = []"
    using e by (simp add: index_getAllKeys_def)
  ultimately have c: "deleteSession ident s' = Inr s'"
    by (simp add: deleteSession_def)
  have d: "os_get s_id ident (sessions s) = None \<longrightarrow>
             sessions s' = sessions s \<and> (index_getAll ident (media s) = [] \<longrightarrow> s' = s)"
    by (auto simp: os_get_None os_delete_def index_getAllKeys_def s'_def)
  show ?thesis by (rule exI [of _ s']) (use r a b c d in simp)
qed

text \<open>
  C5, the claim refuted: the store holds no session \<open>ghost\<close> but one item with that
  \<open>sessionId\<close> (the store that adding an item for a missing session leaves behind).
  \<open>deleteSession\<close> on the nonexistent id removes the item, so what
  \<open>getMediaForSession\<close> reads changes: the call is not a no-op.
\<close>

theorem deleteSession_cascade_counterexample:
  "os_get s_id ''ghost'' (sessions \<lparr>sessions = [], media = [ex_orphan]\<rparr>) = None \<and>
   getMediaForSession ''ghost'' \<lparr>sessions = [], media = [ex_orphan]\<rparr> = [ex_orphan] \<and>
   deleteSession ''ghost'' \<lparr>sessions = [], media = [ex_orphan]\<rparr> = Inr \<lparr>sessions = [], media = []\<rparr> \<and>
   getMediaForSession ''ghost'' \<lparr>sessions = [], media = []\<rparr> = []"
  by (simp add: os_get_def deleteSession_def os_delete_def index_getAllKeys_def index_getAll_def
      ex_orphan_def getMediaForSession_def)

text \<open>
  C5, instances: an id that nothing refers to, and the session of the example store
  deleted twice.
\<close>

theorem deleteSession_cascade_witness:
  "os_get s_id ''zz'' (sessions ex_db) = None \<and> index_getAll ''zz'' (media ex_db) = [] \<and>
   deleteSession ''zz'' ex_db = Inr ex_db \<and>
   deleteSession ''s1'' ex_db = Inr \<lparr>sessions = [], media = []\<rparr> \<and>
   deleteSession ''s1'' \<lparr>sessions = [], media = []\<rparr> = Inr \<lparr>sessions = [], media = []\<rparr>"
proof -
  have a: "os_get s_id ''zz'' (sessions ex_db) = None"
    by (simp add: os_get_def ex_db_def ex_session_def)
  have b: "index_getAll ''zz'' (media ex_db) = []"
    by (simp add: index_getAll_def ex_db_def ex_clip_def)
  have c: "deleteSession ''zz'' ex_db = Inr ex_db"
    using a b deleteSession_cascade [of "''zz''" ex_db] by auto
  have d: "deleteSession ''s1'' ex_db = Inr \<lparr>sessions = [], media = []\<rparr>"
    by (simp add: deleteSession_def os_delete_def index_getAllKeys_def index_getAll_def
        ex_db_def ex_session_def ex_clip_def)
  have e: "deleteSession ''s1'' \<lparr>sessions = [], media = []\<rparr> = Inr \<lparr>sessions = [], media = []\<rparr>"
    using d deleteSession_cascade [of "''s1''" ex_db] by auto
  show ?thesis using a b c d e by simp
qed

section \<open>Merge playback\<close>

text \<open>
  C6, as the code has it. While the player is open on clip \<open>c\<close>, a position update
  advances exactly when \<open>trimEndTime\<close> is set, is not 0 and is reached or passed (a
  \<open>trimEndTime\<close> of 0 is falsy and counts as no trim); the \<open>ended\<close> event of the medium always
  advances. Advancing from the last clip closes the player (Done); from any other clip it
  moves to the next index, whose element is mounted afresh. For the three clips of 5, 3 and
  4 seconds with the middle one trimmed to 1.5 the clips end at 5 (ended), 1.5 (trim) and
  4 (ended), and the player is closed.
\<close>

theorem sequencer_transitions:
  assumes "isMerging ui" and "nth_opt (mergeQueue ui) (currentMergeIndex ui) = Some c"
  shows "seq_step (TimeUpdate t) ui =
           (if (case trimEndTime c of None \<Rightarrow> False | Some e \<Rightarrow> e \<noteq> 0 \<and> e \<le> t)
            then playNextInQueue ui else ui) \<and>
         seq_step (Ended t) ui = playNextInQueue ui \<and>
         (currentMergeIndex ui + 1 = length (mergeQueue ui) \<longrightarrow>
            seq_state_of (playNextInQueue ui) = Done) \<and>
         (currentMergeIndex ui + 1 < length (mergeQueue ui) \<longrightarrow>
            seq_state_of (playNextInQueue ui) = Playing (currentMergeIndex ui + 1) \<and>
            merge_key (playNextInQueue ui) =
              Some (m_id (mergeQueue ui ! (currentMergeIndex ui + 1)))) \<and>
         run_merge [media_events 5 ex_ticks, media_events 3 ex_ticks, media_events 4 ex_ticks]
             (handleMerge (ex_ui ex_queue)) =
           ([Ended 5, TimeUpdate 1.5, Ended 4],
            (ex_ui ex_queue)\<lparr>mergeQueue := ex_queue, currentMergeIndex := 2, isMerging := False\<rparr>)"
proof -
  have a: "seq_step (TimeUpdate t) ui =
           (if (case trimEndTime c of None \<Rightarrow> False | Some e \<Rightarrow> e \<noteq> 0 \<and> e \<le> t)
            then playNextInQueue ui else ui)"
    using assms(2) by (cases "trimEndTime c") (simp_all add: handleMergeTimeUpdate_def)
  have b: "seq_step (Ended t) ui = playNextInQueue ui" by simp
  have c: "currentMergeIndex ui + 1 = length (mergeQueue ui) \<longrightarrow>
            seq_state_of (playNextInQueue ui) = Done"
    by (auto simp: playNextInQueue_def seq_state_of_def)
  have d: "currentMergeIndex ui + 1 < length (mergeQueue ui) \<longrightarrow>
            seq_state_of (playNextInQueue ui) = Playing (currentMergeIndex ui + 1) \<and>
            merge_key (playNextInQueue ui) =
              Some (m_id (mergeQueue ui ! (currentMergeIndex ui + 1)))"
    using assms(1) by (auto simp: playNextInQueue_def seq_state_of_def merge_key_def nth_opt_def)
  show ?thesis using a b c d scenario_B by blast
qed

text \<open>
  C6, the claim refuted: the first clip of the queue has \<open>trimEndTime = 0\<close>; the position
  2 has reached it, but the player stays on clip 0.
\<close>

theorem sequencer_transitions_counterexample:
  "trimEndTime (ex_clip ''z'' 0 5 (Some 0)) = Some 0 \<and> (0::real) \<le> 2 \<and>
   seq_state_of (handleMerge (ex_ui [ex_clip ''z'' 0 5 (Some 0), ex_clip ''b'' 1 3 None])) = Playing 0 \<and>
   seq_state_of (seq_step (TimeUpdate 2) (handleMerge (ex_ui [ex_clip ''z'' 0 5 (Some 0), ex_clip ''b'' 1 3 None]))) = Playing 0"
  by (simp add: handleMerge_def ex_ui_def ex_clip_def seq_state_of_def handleMergeTimeUpdate_def
      nth_opt_def Let_def)

text \<open>
  C6, an instance: on the trimmed clip the position 1 leaves the player where it is and
  the position 1.5 moves it to the third clip.
\<close>

theorem sequencer_transitions_witness:
  "isMerging ((ex_ui ex_queue)\<lparr>mergeQueue := ex_queue, currentMergeIndex := 1, isMerging := True\<rparr>) \<and>
   nth_opt ex_queue 1 = Some (ex_clip ''b'' 1 3 (Some 1.5)) \<and>
   seq_step (TimeUpdate 1) ((ex_ui ex_queue)\<lparr>mergeQueue := ex_queue, currentMergeIndex := 1, isMerging := True\<rparr>) =
     (ex_ui ex_queue)\<lparr>mergeQueue := ex_queue, currentMergeIndex := 1, isMerging := True\<rparr> \<and>
   seq_step (TimeUpdate 1.5) ((ex_ui ex_queue)\<lparr>mergeQueue := ex_queue, currentMergeIndex := 1, isMerging := True\<rparr>) =
     (ex_ui ex_queue)\<lparr>mergeQueue := ex_queue, currentMergeIndex := 2, isMerging := True\<rparr>"
proof -
  let ?ui = "(ex_ui ex_queue)\<lparr>mergeQueue := ex_queue, currentMergeIndex := 1, isMerging := True\<rparr>"
  have a: "isMerging ?ui" by simp
  have n: "nth_opt ex_queue 1 = Some (ex_clip ''b'' 1 3 (Some 1.5))"
    by (simp add: nth_opt_def ex_queue_def)
  then have b: "nth_opt (mergeQueue ?ui) (currentMergeIndex ?ui) = Some (ex_clip ''b'' 1 3 (Some 1.5))"
    by simp
  have p: "playNextInQueue ?ui =
           (ex_ui ex_queue)\<lparr>mergeQueue := ex_queue, currentMergeIndex := 2, isMerging := True\<rparr>"
    by (simp add: playNextInQueue_def ex_queue_def)
  have t: "trimEndTime (ex_clip ''b'' 1 3 (Some 1.5)) = Some 1.5" by (simp add: ex_clip_def)
  have c: "seq_step (TimeUpdate 1) ?ui = ?ui"
    using conjunct1 [OF sequencer_transitions [OF a b, of 1]] unfolding t by simp
  have d: "seq_step (TimeUpdate 1.5) ?ui =
           (ex_ui ex_queue)\<lparr>mergeQueue := ex_queue, currentMergeIndex := 2, isMerging := True\<rparr>"
    using conjunct1 [OF sequencer_transitions [OF a b, of "3 / 2"]] unfolding t p by simp
  show ?thesis by (intro conjI a n c d)
qed

section \<open>The flag workflow\<close>

text \<open>
  C9, as the code has it. When the stored preference says to skip the prompt and a
  running recording of at least 500 ms is stopped with the flagged action, \<open>finishRecording\<close>
  hands the blob to \<open>handleFlaggedWorkflow\<close>, which saves at once: with a fresh id from
  \<open>randomUUID\<close> the media store then holds the new video item of the view's session with
  \<open>trimNeeded = true\<close>, and \<open>showFlagModal\<close> and \<open>pendingFlaggedBlob\<close> are what they were, so
  the prompt is not opened.
\<close>

theorem flagged_stop_autosaves:
  assumes "getShouldSkipFlagPrompt ls"
    and "recorder cv" and "isRecording cv" and "500 \<le> now - recordingStartTime cv"
    and "newId r \<notin> set (map m_id (media s))"
  shows "stopRecordingFlagged now r (cv, ls, s) =
           handleFlaggedWorkflow (concat (chunks cv)) r (cv\<lparr>chunks := [], isRecording := False\<rparr>, ls, s) \<and>
         (case stopRecordingFlagged now r (cv, ls, s) of
            (cv', ls', s') \<Rightarrow>
              showFlagModal cv' = showFlagModal cv \<and>
              pendingFlaggedBlob cv' = pendingFlaggedBlob cv \<and>
              (\<exists>it. getMediaItem (newId r) s' = Some it \<and> trimNeeded it = Some True \<and>
                    m_type it = Video \<and> sessionId it = cv_sessionId cv))"
proof -
  let ?cv = "cv\<lparr>chunks := [], isRecording := False\<rparr>"
  have a: "stopRecordingFlagged now r (cv, ls, s) =
           handleFlaggedWorkflow (concat (chunks cv)) r (?cv, ls, s)"
    using assms(2-4) by (simp add: stopRecordingFlagged_def finishRecording_def Let_def)
  have b: "handleFlaggedWorkflow (concat (chunks cv)) r (?cv, ls, s) =
           (?cv, ls, snd (saveMedia (concat (chunks cv)) Video True r ?cv s))"
    using assms(1) by (simp add: handleFlaggedWorkflow_def)
  have f: "\<forall>y\<in>set (media s). m_id y \<noteq> newId r" using assms(5) by (auto simp: image_iff)
  obtain it where "getMediaItem (newId r) (snd (saveMedia (concat (chunks cv)) Video True r ?cv s)) = Some it"
    "trimNeeded it = Some True" "m_type it = Video" "sessionId it = cv_sessionId ?cv"
    using saveMedia_fresh [OF f, of "concat (chunks cv)" Video True ?cv] by blast
  then show ?thesis unfolding a b by simp
qed

text \<open>
  C9, the claim refuted: the preference is set and the recording is stopped with the
  flagged action 499 ms after it started; \<open>finishRecording\<close> returns before it installs the
  \<open>onstop\<close> handler, the database is what it was and holds no item under the new id.
\<close>

theorem flagged_stop_autosaves_counterexample:
  "getShouldSkipFlagPrompt (setShouldSkipFlagPrompt True Map.empty) \<and>
   recorder ex_cv \<and> isRecording ex_cv \<and> 1499 - recordingStartTime ex_cv = 499 \<and>
   stopRecordingFlagged 1499 ex_readings (ex_cv, setShouldSkipFlagPrompt True Map.empty, ex_db) =
     (ex_cv\<lparr>isRecording := False\<rparr>, setShouldSkipFlagPrompt True Map.empty, ex_db) \<and>
   getMediaItem (newId ex_readings) ex_db = None \<and>
   map m_id (media ex_db) = [''a'', ''b'', ''c'']"
  by (simp add: getShouldSkipFlagPrompt_def setShouldSkipFlagPrompt_def ex_cv_def
      stopRecordingFlagged_def finishRecording_def getMediaItem_def os_get_def ex_db_def
      ex_clip_def ex_readings_def)

text \<open>
  C9, an instance: the example camera view stopped three seconds into the recording.
\<close>

theorem flagged_stop_autosaves_witness:
  "getShouldSkipFlagPrompt (setShouldSkipFlagPrompt True Map.empty) \<and>
   recorder ex_cv \<and> isRecording ex_cv \<and> 500 \<le> 4000 - recordingStartTime ex_cv \<and>
   newId ex_readings \<notin> set (map m_id (media ex_db)) \<and>
   \<not> showFlagModal (fst (stopRecordingFlagged 4000 ex_readings
                            (ex_cv, setShouldSkipFlagPrompt True Map.empty, ex_db))) \<and>
   (\<exists>it. getMediaItem ''d'' (snd (snd (stopRecordingFlagged 4000 ex_readings
                            (ex_cv, setShouldSkipFlagPrompt True Map.empty, ex_db)))) = Some it \<and>
         trimNeeded it = Some True)"
proof -
  let ?ls = "setShouldSkipFlagPrompt True Map.empty"
  have a: "getShouldSkipFlagPrompt ?ls"
    by (simp add: getShouldSkipFlagPrompt_def setShouldSkipFlagPrompt_def)
  have b: "recorder ex_cv" and c: "isRecording ex_cv" and d: "500 \<le> 4000 - recordingStartTime ex_cv"
    by (simp_all add: ex_cv_def)
  have e: "newId ex_readings \<notin> set (map m_id (media ex_db))"
    by (simp add: ex_readings_def ex_db_def ex_clip_def)
  have i: "newId ex_readings = ''d''" and m: "\<not> showFlagModal ex_cv"
    by (simp_all add: ex_readings_def ex_cv_def)
  obtain cv' ls' s' where w: "stopRecordingFlagged 4000 ex_readings (ex_cv, ?ls, ex_db) = (cv', ls', s')"
    by (cases "stopRecordingFlagged 4000 ex_readings (ex_cv, ?ls, ex_db)") auto
  have "showFlagModal cv' = showFlagModal ex_cv \<and>
        (\<exists>it. getMediaItem (newId ex_readings) s' = Some it \<and> trimNeeded it = Some True)"
    using flagged_stop_autosaves [OF a b c d e] unfolding w by auto
  then have f: "\<not> showFlagModal cv'" and g: "\<exists>it. getMediaItem ''d'' s' = Some it \<and> trimNeeded it = Some True"
    using m unfolding i by simp_all
  show ?thesis unfolding w using a b c d e f g by simp
qed

section \<open>Saving a trim\<close>

text \<open>
  C10. When the trim view holds an item, \<open>performSave\<close> completes and the item then
  stored under its id is the held one with \<open>trimNeeded = false\<close>, \<open>trimEndTime\<close> and
  \<open>duration\<close> both equal to the chosen end time, and \<open>crop\<close> equal to the chosen rectangle.
\<close>

theorem trim_save_persists:
  assumes "tv_item tv = Some it"
  shows "\<exists>s' p. snd (performSave tv now s) = Inr s' \<and>
           getMediaItem (m_id it) s' = Some p \<and>
           p = it\<lparr>trimNeeded := Some False, trimEndTime := Some (endTime tv),
                   duration := Some (endTime tv), crop := Some (tv_crop tv)\<rparr> \<and>
           trimNeeded p = Some False \<and> trimEndTime p = Some (endTime tv) \<and>
           duration p = Some (endTime tv) \<and> crop p = Some (tv_crop tv)"
proof -
  let ?p = "it\<lparr>trimNeeded := Some False, trimEndTime := Some (endTime tv),
                   duration := Some (endTime tv), crop := Some (tv_crop tv)\<rparr>"
  have "os_get m_id (m_id ?p) (os_put m_id ?p (media s)) = Some ?p" by (rule os_get_os_put)
  then have "os_get m_id (m_id it) (os_put m_id ?p (media s)) = Some ?p" by simp
  then show ?thesis using assms
    by (simp add: performSave_def updateMediaItem_def getMediaItem_def Let_def)
qed

text \<open>
  C10, an instance: the flagged clip \<open>b\<close> saved with end 1.5 and the upper half kept.
\<close>

theorem trim_save_persists_witness:
  "tv_item ex_tv = Some ((ex_clip ''b'' 1 3 None)\<lparr>trimNeeded := Some True\<rparr>) \<and>
   (\<exists>s' p. snd (performSave ex_tv 3000 ex_db) = Inr s' \<and> getMediaItem ''b'' s' = Some p \<and>
           trimNeeded p = Some False \<and> trimEndTime p = Some 1.5 \<and> duration p = Some 1.5 \<and>
           crop p = Some \<lparr>crop_x = 0, crop_y = 0, crop_width = 1, crop_height = 0.5\<rparr>)"
proof -
  let ?it = "(ex_clip ''b'' 1 3 None)\<lparr>trimNeeded := Some True\<rparr>"
  have a: "tv_item ex_tv = Some ?it" by (simp add: ex_tv_def)
  have i: "m_id ?it = ''b''" by (simp add: ex_clip_def)
  have e: "endTime ex_tv = 1.5"
    and c: "tv_crop ex_tv = \<lparr>crop_x = 0, crop_y = 0, crop_width = 1, crop_height = 0.5\<rparr>"
    by (simp_all add: ex_tv_def)
  obtain s' p where "snd (performSave ex_tv 3000 ex_db) = Inr s'" "getMediaItem (m_id ?it) s' = Some p"
    "trimNeeded p = Some False" "trimEndTime p = Some (endTime ex_tv)"
    "duration p = Some (endTime ex_tv)" "crop p = Some (tv_crop ex_tv)"
    using trim_save_persists [OF a, of 3000 ex_db] by blast
  then have "\<exists>s' p. snd (performSave ex_tv 3000 ex_db) = Inr s' \<and> getMediaItem ''b'' s' = Some p \<and>
           trimNeeded p = Some False \<and> trimEndTime p = Some 1.5 \<and> duration p = Some 1.5 \<and>
           crop p = Some \<lparr>crop_x = 0, crop_y = 0, crop_width = 1, crop_height = 0.5\<rparr>"
    unfolding i e c by blast
  then show ?thesis using a by blast
qed

end
